theory Spec2Isabelle
  imports Complex_Main "HOL-Library.Log_Nat"
begin

section \<open>Laboratory calculations: a shallow embedding of \<^verbatim>\<open>calculations.py\<close>\<close>

subsection \<open>Python floats\<close>

text \<open>
  The module computes with Python floats, which are IEEE 754 binary64 numbers: 53
  significant bits, exponents down to \<open>-1022\<close>, and below that the subnormal numbers,
  the multiples of two to the power \<open>-1074\<close>. A float is modelled by the real number it
  denotes. Every arithmetic operation of the source returns the exact result rounded to
  the nearest binary64 number, a tie going to the even significand; a float literal
  denotes the binary64 number nearest to the decimal that is written. A result too small
  for a normal number is rounded to a subnormal number or to zero, as the hardware does.

  Outside the model: overflow to infinity, infinities and NaN as arguments, and the
  sign of a zero. The parameters are floats, as annotated in the source; an
  \<^verbatim>\<open>int\<close> argument is modelled by the float it converts to.
\<close>

definition round_half_even :: "real \<Rightarrow> int" where
  "round_half_even x =
     (let f = \<lfloor>x\<rfloor>; d = x - of_int f
      in if d < 1 / 2 then f
         else if 1 / 2 < d then f + 1
         else if even f then f else f + 1)"

definition pow2 :: "int \<Rightarrow> real" where
  "pow2 e = (if 0 \<le> e then 2 ^ nat e else 1 / 2 ^ nat (- e))"

text \<open>
  The exponent of the binade of \<open>x\<close>: the \<open>e\<close> with \<open>pow2 e \<le> \<bar>x\<bar> < pow2 (e + 1)\<close>,
  but never below \<open>-1022\<close>, so that all subnormal numbers share the spacing of the smallest
  normal ones. The spacing of the binary64 numbers around \<open>x\<close> is its quantum.
\<close>

definition binade :: "real \<Rightarrow> int" where
  "binade x = max (- 1022) (bitlen \<lfloor>\<bar>x\<bar> * 2 ^ 1074\<rfloor> - 1075)"

definition quantum :: "real \<Rightarrow> real" where
  "quantum x = pow2 (binade x - 52)"

definition binary64 :: "real \<Rightarrow> real" where
  "binary64 x = of_int (round_half_even (x / quantum x)) * quantum x"

definition is_binary64 :: "real \<Rightarrow> bool" where
  "is_binary64 x = (binary64 x = x)"

text \<open>A float literal, and the arithmetic of floats.\<close>

definition py_float :: "real \<Rightarrow> real" where
  "py_float decimal = binary64 decimal"

definition float_mul :: "real \<Rightarrow> real \<Rightarrow> real" where
  "float_mul a b = binary64 (a * b)"

definition float_sub :: "real \<Rightarrow> real \<Rightarrow> real" where
  "float_sub a b = binary64 (a - b)"

definition float_div :: "real \<Rightarrow> real \<Rightarrow> real" where
  "float_div a b = binary64 (a / b)"

subsection \<open>Exceptions\<close>

datatype py_error = ZeroDivisionError | KeyError | TypeError

text \<open>Python's \<^verbatim>\<open>a / b\<close> on floats: raises on a zero divisor.\<close>

definition py_truediv :: "real \<Rightarrow> real \<Rightarrow> py_error + real" where
  "py_truediv a b = (if b = 0 then Inl ZeroDivisionError else Inr (float_div a b))"

subsection \<open>Units and conversion tables\<close>

datatype MassUnit = GRAMS | MILLIGRAMS | MICROGRAMS | KILOGRAMS

datatype VolumeUnit = LITERS | MILLILITERS | MICROLITERS

datatype ConcentrationUnit =
  MOLAR | MILLIMOLAR | MICROMOLAR | NANOMOLAR | PERCENT_WV | PERCENT_VV

definition MASS_TO_GRAMS :: "MassUnit \<rightharpoonup> real" where
  "MASS_TO_GRAMS =
     [KILOGRAMS \<mapsto> 1000, GRAMS \<mapsto> 1, MILLIGRAMS \<mapsto> py_float 0.001,
      MICROGRAMS \<mapsto> py_float 0.000001]"

definition VOLUME_TO_LITERS :: "VolumeUnit \<rightharpoonup> real" where
  "VOLUME_TO_LITERS =
     [LITERS \<mapsto> 1, MILLILITERS \<mapsto> py_float 0.001, MICROLITERS \<mapsto> py_float 0.000001]"

definition CONC_TO_MOLAR :: "ConcentrationUnit \<rightharpoonup> real" where
  "CONC_TO_MOLAR =
     [MOLAR \<mapsto> 1, MILLIMOLAR \<mapsto> py_float 0.001, MICROMOLAR \<mapsto> py_float 0.000001,
      NANOMOLAR \<mapsto> py_float 0.000000001]"

text \<open>Python's \<^verbatim>\<open>d.get(key, default)\<close>: the default where the key is absent.\<close>

definition dict_get :: "('k \<rightharpoonup> 'v) \<Rightarrow> 'k \<Rightarrow> 'v \<Rightarrow> 'v" where
  "dict_get d k dflt = (case d k of None \<Rightarrow> dflt | Some v \<Rightarrow> v)"

subsection \<open>Rounding and rendering with a fixed number of decimals\<close>

text \<open>
  \<^verbatim>\<open>round(x, n)\<close> rounds the exact value of the float \<open>x\<close> to the nearest multiple of
  \<open>1 / 10 ^ n\<close>, a tie going to the even multiple, and returns the float nearest to that
  decimal.
\<close>

definition py_round :: "real \<Rightarrow> nat \<Rightarrow> real" where
  "py_round x ndigits = binary64 (of_int (round_half_even (x * 10 ^ ndigits)) / 10 ^ ndigits)"

definition digit_char :: "nat \<Rightarrow> char" where
  "digit_char d = ''0123456789'' ! (d mod 10)"

fun str_nat :: "nat \<Rightarrow> string" where
  "str_nat n = (if n < 10 then [digit_char n] else str_nat (n div 10) @ [digit_char n])"

declare str_nat.simps [simp del]

text \<open>A number of thousandths written as a decimal with three digits after the point.\<close>

definition format_thousandths :: "nat \<Rightarrow> string" where
  "format_thousandths n =
     str_nat (n div 1000) @ ''.'' @
     [digit_char (n div 100), digit_char (n div 10), digit_char n]"

text \<open>
  \<^verbatim>\<open>f"{x:.3f}"\<close>: the exact value of the float rounded to thousandths, a tie going
  to the even one, written with a minus sign for a negative float (also when it rounds
  to zero).
\<close>

definition format_3f :: "real \<Rightarrow> string" where
  "format_3f x =
     (if x < 0 then ''-'' else '''') @
     format_thousandths (nat (round_half_even (\<bar>x\<bar> * 1000)))"

text \<open>
  The micro sign of the unit symbols is the code point U+00B5; a Python string is a
  sequence of code points, and every code point of this module is below 256.
\<close>

definition micro_sign :: char where
  "micro_sign = CHR 0xB5"

subsection \<open>Formatting helpers\<close>

definition format_mass :: "real \<Rightarrow> string" where
  "format_mass mass_g =
     (if mass_g \<ge> 1000 then format_3f (float_div mass_g 1000) @ '' kg''
      else if mass_g \<ge> 1 then format_3f mass_g @ '' g''
      else if mass_g \<ge> py_float 0.001 then format_3f (float_mul mass_g 1000) @ '' mg''
      else format_3f (float_mul mass_g 1000000) @ '' '' @ [micro_sign] @ ''g'')"

definition format_volume :: "real \<Rightarrow> string" where
  "format_volume volume_L =
     (if volume_L \<ge> 1 then format_3f volume_L @ '' L''
      else if volume_L \<ge> py_float 0.001 then format_3f (float_mul volume_L 1000) @ '' mL''
      else format_3f (float_mul volume_L 1000000) @ '' '' @ [micro_sign] @ ''L'')"

definition format_concentration :: "real \<Rightarrow> string" where
  "format_concentration conc_M =
     (if conc_M \<ge> 1 then format_3f conc_M @ '' M''
      else if conc_M \<ge> py_float 0.001 then format_3f (float_mul conc_M 1000) @ '' mM''
      else if conc_M \<ge> py_float 0.000001
        then format_3f (float_mul conc_M 1000000) @ '' '' @ [micro_sign] @ ''M''
      else format_3f (float_mul conc_M 1000000000) @ '' nM'')"

subsection \<open>Core calculation functions\<close>

definition calculate_mass ::
  "real \<Rightarrow> real \<Rightarrow> real \<Rightarrow> real \<Rightarrow> VolumeUnit \<Rightarrow> ConcentrationUnit \<Rightarrow> py_error + (real \<times> string)"
where
  "calculate_mass molarity volume mw purity volume_unit conc_unit =
     (let molarity_M = float_mul molarity (dict_get CONC_TO_MOLAR conc_unit 1);
          volume_L = float_mul volume (dict_get VOLUME_TO_LITERS volume_unit 1)
      in case py_truediv purity 100 of
           Inl e \<Rightarrow> Inl e
         | Inr purity_fraction \<Rightarrow>
             (case py_truediv (float_mul (float_mul molarity_M volume_L) mw) purity_fraction of
                Inl e \<Rightarrow> Inl e
              | Inr mass_g \<Rightarrow> Inr (mass_g, format_mass mass_g)))"

definition calculate_molarity ::
  "real \<Rightarrow> real \<Rightarrow> real \<Rightarrow> real \<Rightarrow> MassUnit \<Rightarrow> VolumeUnit \<Rightarrow> py_error + (real \<times> string)"
where
  "calculate_molarity mass volume mw purity mass_unit volume_unit =
     (let mass_g = float_mul mass (dict_get MASS_TO_GRAMS mass_unit 1);
          volume_L = float_mul volume (dict_get VOLUME_TO_LITERS volume_unit 1)
      in if volume_L = 0 \<or> mw = 0 then Inr (0, ''0 M'')
         else case py_truediv purity 100 of
           Inl e \<Rightarrow> Inl e
         | Inr purity_fraction \<Rightarrow>
             (case py_truediv mass_g (float_mul volume_L mw) of
                Inl e \<Rightarrow> Inl e
              | Inr q \<Rightarrow>
                  (let molarity_M = float_mul q purity_fraction
                   in Inr (molarity_M, format_concentration molarity_M))))"

definition calculate_stock_volume ::
  "real \<Rightarrow> real \<Rightarrow> real \<Rightarrow> ConcentrationUnit \<Rightarrow> ConcentrationUnit \<Rightarrow> VolumeUnit
     \<Rightarrow> py_error + (real \<times> string \<times> real \<times> string)"
where
  "calculate_stock_volume c1 c2 v2 c1_unit c2_unit v2_unit =
     (let c1_M = float_mul c1 (dict_get CONC_TO_MOLAR c1_unit 1);
          c2_M = float_mul c2 (dict_get CONC_TO_MOLAR c2_unit 1);
          v2_L = float_mul v2 (dict_get VOLUME_TO_LITERS v2_unit 1)
      in if c1_M = 0 then Inr (0, ''0 L'', v2_L, format_volume v2_L)
         else case py_truediv (float_mul c2_M v2_L) c1_M of
           Inl e \<Rightarrow> Inl e
         | Inr v1_L \<Rightarrow>
             (let diluent_L = float_sub v2_L v1_L
              in Inr (v1_L, format_volume v1_L, diluent_L, format_volume diluent_L)))"

definition calculate_percent_solution ::
  "real \<Rightarrow> real \<Rightarrow> MassUnit \<Rightarrow> VolumeUnit \<Rightarrow> py_error + real"
where
  "calculate_percent_solution mass volume mass_unit volume_unit =
     (let mass_g = float_mul mass (dict_get MASS_TO_GRAMS mass_unit 1);
          volume_mL = float_mul (float_mul volume (dict_get VOLUME_TO_LITERS volume_unit 1)) 1000
      in if volume_mL = 0 then Inr 0
         else case py_truediv mass_g volume_mL of
           Inl e \<Rightarrow> Inl e
         | Inr q \<Rightarrow> Inr (float_mul q 100))"

text \<open>
  The loop of \<^verbatim>\<open>calculate_serial_dilution\<close>: \<open>todo\<close> iterations of
  \<^verbatim>\<open>range(num_dilutions + 1)\<close> remain, \<open>i\<close> is the loop variable. Each iteration
  appends its entry and then divides, the last one included.
\<close>

fun serial_dilution_loop ::
  "nat \<Rightarrow> int \<Rightarrow> real \<Rightarrow> real \<Rightarrow> ConcentrationUnit \<Rightarrow> (int \<times> real \<times> string) list
     \<Rightarrow> py_error + (int \<times> real \<times> string) list"
where
  "serial_dilution_loop 0 i current_conc dilution_factor conc_unit results = Inr results"
| "serial_dilution_loop (Suc todo) i current_conc dilution_factor conc_unit results =
     (let results' = results @
            [(i, current_conc,
              format_concentration
                (float_mul current_conc (dict_get CONC_TO_MOLAR conc_unit 1)))]
      in case py_truediv current_conc dilution_factor of
           Inl e \<Rightarrow> Inl e
         | Inr current_conc' \<Rightarrow>
             serial_dilution_loop todo (i + 1) current_conc' dilution_factor conc_unit results')"

definition calculate_serial_dilution ::
  "real \<Rightarrow> real \<Rightarrow> int \<Rightarrow> ConcentrationUnit \<Rightarrow> py_error + (int \<times> real \<times> string) list"
where
  "calculate_serial_dilution initial_conc dilution_factor num_dilutions conc_unit =
     serial_dilution_loop (nat (num_dilutions + 1)) 0 initial_conc dilution_factor conc_unit []"

text \<open>A concentration divided \<open>i\<close> times by the dilution factor, one division after another.\<close>

definition divided_times :: "real \<Rightarrow> real \<Rightarrow> nat \<Rightarrow> real" where
  "divided_times c dilution_factor i = ((\<lambda>x. float_div x dilution_factor) ^^ i) c"

text \<open>The entry that the series reports at step \<open>i\<close>.\<close>

definition dilution_entry ::
  "real \<Rightarrow> real \<Rightarrow> ConcentrationUnit \<Rightarrow> nat \<Rightarrow> int \<times> real \<times> string"
where
  "dilution_entry initial_conc dilution_factor conc_unit i =
     (int i, divided_times initial_conc dilution_factor i,
      format_concentration
        (float_mul (divided_times initial_conc dilution_factor i)
           (dict_get CONC_TO_MOLAR conc_unit 1)))"

text \<open>The raw concentrations of a series, in order.\<close>

definition raw_concentrations :: "(int \<times> real \<times> string) list \<Rightarrow> real list" where
  "raw_concentrations entries = map (\<lambda>entry. fst (snd entry)) entries"

subsection \<open>Recipe scaling\<close>

text \<open>
  \<^verbatim>\<open>scale_recipe\<close> takes a list of dictionaries (\<^verbatim>\<open>List[Dict[str, Any]]\<close>), and
  dictionaries are mutable objects that the caller still holds. So the dictionaries live
  in a store: an address is an index into the list of allocated objects, a fresh object
  is appended. A list of steps is the list of the addresses of its dictionaries; the
  function only reads it. A dictionary value is a number or a string.
\<close>

datatype pyval = Num real | Str string

type_synonym py_dict = "string \<rightharpoonup> pyval"

type_synonym heap = "py_dict list"

text \<open>
  One iteration: \<^verbatim>\<open>new_step = step.copy()\<close> allocates a copy,
  \<^verbatim>\<open>step['amount']\<close> raises \<^verbatim>\<open>KeyError\<close> on a missing key, the product with the
  float \<^verbatim>\<open>scale_factor\<close> raises \<^verbatim>\<open>TypeError\<close> on a string, and the rounded
  product is stored in the copy, whose address is appended to \<^verbatim>\<open>scaled_steps\<close>.
\<close>

fun scale_recipe_loop ::
  "heap \<Rightarrow> nat list \<Rightarrow> real \<Rightarrow> nat list \<Rightarrow> py_error + (heap \<times> nat list)"
where
  "scale_recipe_loop h [] scale_factor scaled_steps = Inr (h, scaled_steps)"
| "scale_recipe_loop h (step # rest) scale_factor scaled_steps =
     (let new_step = length h;
          h1 = h @ [h ! step]
      in case (h1 ! step) ''amount'' of
           None \<Rightarrow> Inl KeyError
         | Some (Str s) \<Rightarrow> Inl TypeError
         | Some (Num amount) \<Rightarrow>
             (let h2 = h1[new_step :=
                        (h1 ! new_step)
                          (''amount'' \<mapsto> Num (py_round (float_mul amount scale_factor) 4))]
              in scale_recipe_loop h2 rest scale_factor (scaled_steps @ [new_step])))"

definition scale_recipe ::
  "heap \<Rightarrow> nat list \<Rightarrow> real \<Rightarrow> real \<Rightarrow> py_error + (heap \<times> nat list)"
where
  "scale_recipe h steps new_total_volume old_total_volume =
     (if old_total_volume = 0 then Inr (h, steps)
      else case py_truediv new_total_volume old_total_volume of
             Inl e \<Rightarrow> Inl e
           | Inr scale_factor \<Rightarrow> scale_recipe_loop h steps scale_factor [])"

text \<open>
  What the caller reads: the dictionaries behind a list of steps, and the value of a
  call (Python compares lists of dictionaries by content).
\<close>

definition steps_of :: "heap \<Rightarrow> nat list \<Rightarrow> py_dict list" where
  "steps_of h steps = map (\<lambda>a. h ! a) steps"

definition scale_recipe_value ::
  "heap \<Rightarrow> nat list \<Rightarrow> real \<Rightarrow> real \<Rightarrow> py_error + py_dict list"
where
  "scale_recipe_value h steps new_total_volume old_total_volume =
     (case scale_recipe h steps new_total_volume old_total_volume of
        Inl e \<Rightarrow> Inl e
      | Inr (h', scaled_steps) \<Rightarrow> Inr (steps_of h' scaled_steps))"

text \<open>
  A list of recipe steps: every address is allocated and every dictionary has a numeric
  \<^verbatim>\<open>amount\<close>.
\<close>

definition amount_of :: "py_dict \<Rightarrow> real option" where
  "amount_of d = (case d ''amount'' of Some (Num x) \<Rightarrow> Some x | _ \<Rightarrow> None)"

definition recipe_steps :: "heap \<Rightarrow> nat list \<Rightarrow> bool" where
  "recipe_steps h steps = list_all (\<lambda>a. a < length h \<and> amount_of (h ! a) \<noteq> None) steps"

text \<open>The copy of a step with its amount multiplied by a factor and rounded.\<close>

definition scaled_step :: "real \<Rightarrow> py_dict \<Rightarrow> py_dict" where
  "scaled_step factor d =
     (case amount_of d of
        None \<Rightarrow> d
      | Some x \<Rightarrow> d(''amount'' \<mapsto> Num (py_round (float_mul x factor) 4)))"

text \<open>A step whose amount is a number that has at most four decimals.\<close>

definition amount_is_rounded :: "py_dict \<Rightarrow> bool" where
  "amount_is_rounded d = (case amount_of d of None \<Rightarrow> False | Some x \<Rightarrow> py_round x 4 = x)"

subsection \<open>The display ladders in the words of the specification\<close>






subsection \<open>Reading a displayed string\<close>

text \<open>
  What a string displays is read off the string itself: an optional minus sign, a whole
  number without a leading zero, a point, exactly three digits, a space, and the unit
  symbol. The number is counted in thousandths: \<^verbatim>\<open>"3.029 kg"\<close> reads as 3029
  thousandths, not negative, with the symbol \<^verbatim>\<open>kg\<close>. A string of another shape
  reads as nothing.
\<close>

definition digit_value :: "char \<Rightarrow> nat option" where
  "digit_value c =
     (if c \<in> set ''0123456789'' then Some (of_char c - 48) else None)"

fun read_digits :: "nat \<Rightarrow> string \<Rightarrow> nat option" where
  "read_digits acc [] = Some acc"
| "read_digits acc (c # cs) =
     (case digit_value c of
        None \<Rightarrow> None
      | Some d \<Rightarrow> read_digits (10 * acc + d) cs)"

definition read_nat :: "string \<Rightarrow> nat option" where
  "read_nat s = (if s = [] \<or> (length s > 1 \<and> hd s = CHR ''0'') then None else read_digits 0 s)"

definition read_3_decimals :: "string \<Rightarrow> (bool \<times> nat) option" where
  "read_3_decimals s =
     (let negative = (s \<noteq> [] \<and> hd s = CHR ''-'');
          body = (if negative then tl s else s);
          whole = takeWhile (\<lambda>c. c \<noteq> CHR ''.'') body;
          decimals = drop (Suc (length whole)) body
      in if length body = length whole + 4
         then case (read_nat whole, read_digits 0 decimals) of
                (Some a, Some b) \<Rightarrow> Some (negative, 1000 * a + b)
              | _ \<Rightarrow> None
         else None)"

definition read_display :: "string \<Rightarrow> ((bool \<times> nat) \<times> string) option" where
  "read_display out =
     (let number = takeWhile (\<lambda>c. c \<noteq> CHR '' '') out
      in if length number < length out
         then case read_3_decimals number of
                None \<Rightarrow> None
              | Some r \<Rightarrow> Some (r, drop (Suc (length number)) out)
         else None)"



text \<open>
  The displayed number, without a minus sign and under a given unit symbol, is in a range
  of thousandths, or at least a number of thousandths.
\<close>

definition displayed_between :: "string \<Rightarrow> string \<Rightarrow> nat \<Rightarrow> nat \<Rightarrow> bool" where
  "displayed_between out symbol lo hi =
     (case read_display out of
        None \<Rightarrow> False
      | Some ((negative, n), u) \<Rightarrow> \<not> negative \<and> u = symbol \<and> lo \<le> n \<and> n \<le> hi)"

definition displayed_from :: "string \<Rightarrow> string \<Rightarrow> nat \<Rightarrow> bool" where
  "displayed_from out symbol lo =
     (case read_display out of
        None \<Rightarrow> False
      | Some ((negative, n), u) \<Rightarrow> \<not> negative \<and> u = symbol \<and> lo \<le> n)"

section \<open>Properties\<close>

subsection \<open>Powers of two and rounding to an integer\<close>

lemma pow2_powi: "pow2 e = 2 powi e"
  by (simp add: pow2_def power_int_def field_simps power_inverse)

lemma pow2_pos [simp]: "0 < pow2 e"
  by (simp add: pow2_powi)

lemma pow2_add: "pow2 (a + b) = pow2 a * pow2 b"
  by (simp add: pow2_powi power_int_add)

lemma pow2_diff: "pow2 (a - b) = pow2 a / pow2 b"
  by (simp add: pow2_powi power_int_diff)

lemma pow2_nat: "pow2 (int n) = 2 ^ n"
  by (simp add: pow2_def)

lemma pow2_mono: "a \<le> b \<Longrightarrow> pow2 a \<le> pow2 b"
  by (simp add: pow2_powi power_int_increasing)

lemma pow2_strict_mono: "a < b \<Longrightarrow> pow2 a < pow2 b"
  by (simp add: pow2_powi power_int_strict_increasing)

lemma pow2_less_cancel: "pow2 a < pow2 b \<Longrightarrow> a < b"
proof (rule ccontr)
  assume l: "pow2 a < pow2 b" and n: "\<not> a < b"
  from n have "pow2 b \<le> pow2 a" by (intro pow2_mono) simp
  with l show False by simp
qed

lemma pow2_Suc: "pow2 (e + 1) = 2 * pow2 e"
  by (simp add: pow2_powi power_int_add)

lemma rhe_cases:
  "round_half_even z = \<lfloor>z\<rfloor> \<or> round_half_even z = \<lfloor>z\<rfloor> + 1"
  by (simp add: round_half_even_def Let_def)

lemma rhe_error: "\<bar>of_int (round_half_even z) - z\<bar> \<le> 1 / 2"
  by (simp add: round_half_even_def Let_def)

lemma rhe_of_int [simp]: "round_half_even (of_int k) = k"
  by (simp add: round_half_even_def)

lemma rhe_le_int: "z \<le> of_int k \<Longrightarrow> round_half_even z \<le> k"
proof -
  assume a: "z \<le> of_int k"
  show ?thesis
  proof (cases "z = of_int k")
    case True
    then show ?thesis by simp
  next
    case False
    with a have "z < of_int k" by simp
    then have "\<lfloor>z\<rfloor> < k" by (simp add: floor_less_iff)
    then show ?thesis using rhe_cases [of z] by auto
  qed
qed

lemma rhe_ge_int: "of_int k \<le> z \<Longrightarrow> k \<le> round_half_even z"
proof -
  assume "of_int k \<le> z"
  then have "k \<le> \<lfloor>z\<rfloor>" by (simp add: le_floor_iff)
  then show ?thesis using rhe_cases [of z] by auto
qed

lemma rhe_mono: "z \<le> w \<Longrightarrow> round_half_even z \<le> round_half_even w"
proof -
  assume zw: "z \<le> w"
  then have fl: "\<lfloor>z\<rfloor> \<le> \<lfloor>w\<rfloor>" by (rule floor_mono)
  show ?thesis
  proof (cases "\<lfloor>z\<rfloor> = \<lfloor>w\<rfloor>")
    case True
    then show ?thesis
      using zw by (auto simp: round_half_even_def Let_def)
  next
    case False
    with fl have "\<lfloor>z\<rfloor> + 1 \<le> \<lfloor>w\<rfloor>" by simp
    then show ?thesis using rhe_cases [of z] rhe_cases [of w] by auto
  qed
qed

subsection \<open>Binades\<close>

lemma binade_ge: "- 1022 \<le> binade x"
  by (simp add: binade_def)

lemma scaled_floor_nonneg: "0 \<le> \<lfloor>\<bar>x\<bar> * 2 ^ 1074\<rfloor>"
  by simp

lemma binade_mono: "\<bar>x\<bar> \<le> \<bar>y\<bar> \<Longrightarrow> binade x \<le> binade y"
proof -
  assume "\<bar>x\<bar> \<le> \<bar>y\<bar>"
  then have "\<lfloor>\<bar>x\<bar> * 2 ^ 1074\<rfloor> \<le> \<lfloor>\<bar>y\<bar> * 2 ^ 1074\<rfloor>"
    by (intro floor_mono) simp
  then have "bitlen \<lfloor>\<bar>x\<bar> * 2 ^ 1074\<rfloor> \<le> bitlen \<lfloor>\<bar>y\<bar> * 2 ^ 1074\<rfloor>"
    by (simp add: bitlen_def floorlog_mono)
  then show ?thesis by (simp add: binade_def)
qed

lemma binade_upper: "\<bar>x\<bar> < pow2 (binade x + 1)"
proof -
  let ?N = "\<lfloor>\<bar>x\<bar> * 2 ^ 1074\<rfloor>"
  let ?l = "bitlen ?N"
  have l0: "0 \<le> ?l" by (rule bitlen_nonneg)
  have "?N < 2 ^ nat ?l"
    using bitlen_le_iff_power [of ?N ?l] l0 by simp
  then have "\<bar>x\<bar> * 2 ^ 1074 < 2 ^ nat ?l"
    by (simp add: floor_less_iff)
  then have "\<bar>x\<bar> * pow2 1074 < pow2 ?l"
    using l0 by (simp add: pow2_def)
  then have "\<bar>x\<bar> < pow2 ?l / pow2 1074"
    by (simp add: field_simps)
  then have "\<bar>x\<bar> < pow2 (?l - 1075 + 1)"
    by (simp add: pow2_diff [symmetric])
  also have "\<dots> \<le> pow2 (binade x + 1)"
    by (intro pow2_mono) (simp add: binade_def)
  finally show ?thesis .
qed

lemma binade_lower: "- 1022 < binade x \<Longrightarrow> pow2 (binade x) \<le> \<bar>x\<bar>"
proof -
  let ?N = "\<lfloor>\<bar>x\<bar> * 2 ^ 1074\<rfloor>"
  let ?l = "bitlen ?N"
  assume a: "- 1022 < binade x"
  then have b: "binade x = ?l - 1075" and l: "53 < ?l"
    by (auto simp: binade_def max_def split: if_splits)
  have "2 ^ (nat ?l - 1) \<le> ?N"
    using bitlen_ge_iff_power [of ?l ?N] l by simp
  then have "(2::real) ^ (nat ?l - 1) \<le> of_int ?N"
    by (metis of_int_le_iff of_int_numeral of_int_power)
  also have "\<dots> \<le> \<bar>x\<bar> * 2 ^ 1074"
    by (rule of_int_floor_le)
  finally have "pow2 (?l - 1) \<le> \<bar>x\<bar> * pow2 1074"
    using l by (simp add: pow2_def nat_diff_distrib)
  then have "pow2 (?l - 1) / pow2 1074 \<le> \<bar>x\<bar>"
    by (simp add: field_simps)
  then show ?thesis
    by (simp add: b pow2_diff [symmetric])
qed

lemma binade_eq:
  "- 1022 \<le> e \<Longrightarrow> pow2 e \<le> \<bar>x\<bar> \<Longrightarrow> \<bar>x\<bar> < pow2 (e + 1) \<Longrightarrow> binade x = e"
proof -
  assume e: "- 1022 \<le> e" and lo: "pow2 e \<le> \<bar>x\<bar>" and hi: "\<bar>x\<bar> < pow2 (e + 1)"
  have "pow2 e < pow2 (binade x + 1)"
    using lo binade_upper [of x] by simp
  then have 1: "e \<le> binade x"
    using pow2_less_cancel by fastforce
  have 2: "binade x \<le> e"
  proof (cases "- 1022 < binade x")
    case True
    then have "pow2 (binade x) < pow2 (e + 1)"
      using binade_lower [of x] hi by simp
    then show ?thesis using pow2_less_cancel by fastforce
  next
    case False
    then show ?thesis using e binade_ge [of x] by simp
  qed
  from 1 2 show ?thesis by simp
qed

lemma binade_subnormal: "\<bar>x\<bar> < pow2 (- 1022) \<Longrightarrow> binade x = - 1022"
proof -
  assume a: "\<bar>x\<bar> < pow2 (- 1022)"
  show ?thesis
  proof (rule ccontr)
    assume "binade x \<noteq> - 1022"
    then have b: "- 1022 < binade x" using binade_ge [of x] by simp
    then have "pow2 (- 1022) \<le> pow2 (binade x)" by (intro pow2_mono) simp
    also have "\<dots> \<le> \<bar>x\<bar>" using b by (rule binade_lower)
    finally show False using a by simp
  qed
qed

lemma quantum_pos [simp]: "0 < quantum x"
  by (simp add: quantum_def)

subsection \<open>Rounding to binary64\<close>

lemma rhe_minus: "round_half_even (- z) = - round_half_even z"
proof (cases "z = of_int \<lfloor>z\<rfloor>")
  case True
  then obtain k where "z = of_int k" ..
  then have "- z = of_int (- k)" by simp
  then show ?thesis using \<open>z = of_int k\<close> by (simp only: rhe_of_int)
next
  case False
  then have c: "\<lceil>z\<rceil> = \<lfloor>z\<rfloor> + 1"
    by (simp add: ceiling_altdef)
  have f: "\<lfloor>- z\<rfloor> = - \<lfloor>z\<rfloor> - 1"
    using c by (simp add: floor_minus)
  have d: "0 < z - of_int \<lfloor>z\<rfloor>"
    using False by (smt (verit) of_int_floor_le)
  show ?thesis
    using d by (simp add: round_half_even_def Let_def f)
qed

lemma quantum_nonneg [simp]: "0 \<le> quantum x"
  using quantum_pos [of x] by (simp only: less_imp_le)

lemma quantum_nonzero [simp]: "quantum x \<noteq> 0"
  by (metis less_irrefl quantum_pos)

lemma rhe_zero [simp]: "round_half_even 0 = 0"
  by (simp add: round_half_even_def)

lemma pow2_numeral_53: "pow2 53 = 2 ^ 53"
  by (simp add: pow2_def)

lemma pow2_numeral_52: "pow2 52 = 2 ^ 52"
  by (simp add: pow2_def)

lemma binade_top: "pow2 (binade z + 1) = 2 ^ 53 * quantum z"
  using pow2_add [of "binade z - 52" 53] by (simp add: quantum_def pow2_numeral_53 add.commute mult.commute)

lemma binade_bottom: "pow2 (binade z) = 2 ^ 52 * quantum z"
  using pow2_add [of "binade z - 52" 52] by (simp add: quantum_def pow2_numeral_52 add.commute mult.commute)

lemma binade_minus [simp]: "binade (- x) = binade x"
  by (simp add: binade_def)

lemma quantum_minus [simp]: "quantum (- x) = quantum x"
  by (simp add: quantum_def)

lemma binary64_minus: "binary64 (- x) = - binary64 x"
  by (simp add: binary64_def rhe_minus)

lemma binary64_zero [simp]: "binary64 0 = 0"
  by (simp add: binary64_def)

lemma binary64_nonneg: "0 \<le> z \<Longrightarrow> 0 \<le> binary64 z"
proof -
  assume "0 \<le> z"
  then have "of_int 0 \<le> z / quantum z" by simp
  then have "0 \<le> round_half_even (z / quantum z)" by (rule rhe_ge_int)
  then show ?thesis by (simp add: binary64_def)
qed


lemma binary64_error: "\<bar>binary64 z - z\<bar> \<le> quantum z / 2"
proof -
  let ?q = "quantum z"
  have "\<bar>of_int (round_half_even (z / ?q)) - z / ?q\<bar> \<le> 1 / 2"
    by (rule rhe_error)
  then have "\<bar>of_int (round_half_even (z / ?q)) - z / ?q\<bar> * ?q \<le> 1 / 2 * ?q"
    by (intro mult_right_mono) simp_all
  moreover have "binary64 z - z = (of_int (round_half_even (z / ?q)) - z / ?q) * ?q"
    by (simp add: binary64_def field_simps)
  then have "\<bar>of_int (round_half_even (z / ?q)) - z / ?q\<bar> * ?q = \<bar>binary64 z - z\<bar>"
    by (simp only: abs_mult abs_of_pos [OF quantum_pos])
  ultimately show ?thesis by simp
qed

lemma scaled_upper: "0 \<le> z \<Longrightarrow> z / quantum z < 2 ^ 53"
proof -
  assume "0 \<le> z"
  then have "z < pow2 (binade z + 1)" using binade_upper [of z] by simp
  also have "\<dots> = 2 ^ 53 * quantum z"
    by (rule binade_top)
  finally show ?thesis by (simp add: field_simps)
qed

lemma scaled_lower: "0 \<le> z \<Longrightarrow> - 1022 < binade z \<Longrightarrow> 2 ^ 52 \<le> z / quantum z"
proof -
  assume z: "0 \<le> z" and b: "- 1022 < binade z"
  have "pow2 (binade z) = 2 ^ 52 * quantum z"
    by (rule binade_bottom)
  then have "2 ^ 52 * quantum z \<le> z"
    using binade_lower [OF b] z by simp
  then show ?thesis by (simp add: field_simps)
qed

lemma binary64_upper: "0 \<le> z \<Longrightarrow> binary64 z \<le> pow2 (binade z + 1)"
proof -
  assume z: "0 \<le> z"
  have "z / quantum z \<le> of_int (2 ^ 53)"
    using scaled_upper [OF z] by simp
  then have "round_half_even (z / quantum z) \<le> 2 ^ 53"
    by (rule rhe_le_int)
  then have "of_int (round_half_even (z / quantum z)) \<le> (2::real) ^ 53"
    by (metis of_int_le_iff of_int_numeral of_int_power)
  then have "binary64 z \<le> 2 ^ 53 * quantum z"
    unfolding binary64_def by (intro mult_right_mono) simp_all
  also have "\<dots> = pow2 (binade z + 1)"
    by (simp only: binade_top)
  finally show ?thesis .
qed

lemma binary64_lower: "0 \<le> z \<Longrightarrow> - 1022 < binade z \<Longrightarrow> pow2 (binade z) \<le> binary64 z"
proof -
  assume z: "0 \<le> z" and b: "- 1022 < binade z"
  have "of_int (2 ^ 52) \<le> z / quantum z"
    using scaled_lower [OF z b] by simp
  then have "2 ^ 52 \<le> round_half_even (z / quantum z)"
    by (rule rhe_ge_int)
  then have "(2::real) ^ 52 \<le> of_int (round_half_even (z / quantum z))"
    by (metis of_int_le_iff of_int_numeral of_int_power)
  then have "2 ^ 52 * quantum z \<le> binary64 z"
    unfolding binary64_def by (intro mult_right_mono) simp_all
  moreover have "2 ^ 52 * quantum z = pow2 (binade z)"
    by (simp only: binade_bottom)
  ultimately show ?thesis by simp
qed

lemma pow2_abs [simp]: "\<bar>pow2 e\<bar> = pow2 e"
  by (simp add: abs_of_pos)

lemma pow2_nonneg [simp]: "0 \<le> pow2 e"
  using pow2_pos [of e] by (simp only: less_imp_le)

text \<open>Evaluation with a known exponent.\<close>

lemma binary64_normal:
  "- 1022 \<le> e \<Longrightarrow> pow2 e \<le> \<bar>x\<bar> \<Longrightarrow> \<bar>x\<bar> < pow2 (e + 1) \<Longrightarrow>
   binary64 x = of_int (round_half_even (x / pow2 (e - 52))) * pow2 (e - 52)"
  by (simp add: binary64_def quantum_def binade_eq)

lemma binary64_subnormal:
  "\<bar>x\<bar> < pow2 (- 1022) \<Longrightarrow>
   binary64 x = of_int (round_half_even (x / pow2 (- 1074))) * pow2 (- 1074)"
  by (simp add: binary64_def quantum_def binade_subnormal)

text \<open>A multiple of the quantum of its own binade is a binary64 value.\<close>

lemma is_binary64_multiple: "x = of_int k * quantum x \<Longrightarrow> is_binary64 x"
proof -
  assume a: "x = of_int k * quantum x"
  then have "x / quantum x = of_int k" by (simp add: field_simps)
  then have "round_half_even (x / quantum x) = k" by simp
  then show ?thesis using a by (simp add: is_binary64_def binary64_def)
qed

lemma is_binary64_D: "is_binary64 x \<Longrightarrow> x = of_int (round_half_even (x / quantum x)) * quantum x"
  by (simp add: is_binary64_def binary64_def)

lemma binary64_idem_nonneg:
  assumes z: "0 \<le> z"
  shows "binary64 (binary64 z) = binary64 z"
proof -
  let ?b = "binade z"
  let ?q = "quantum z"
  let ?k = "round_half_even (z / ?q)"
  let ?r = "binary64 z"
  have r: "?r = of_int ?k * ?q" by (simp add: binary64_def)
  have r0: "0 \<le> ?r" using z by (rule binary64_nonneg)
  have up: "?r \<le> pow2 (?b + 1)" using z by (rule binary64_upper)
  have same: "is_binary64 ?r" if "binade ?r = ?b"
  proof -
    from that have "quantum ?r = ?q" by (simp add: quantum_def)
    with r have "?r = of_int ?k * quantum ?r" by simp
    then show ?thesis by (rule is_binary64_multiple)
  qed
  have "is_binary64 ?r"
  proof (cases "?r < pow2 (?b + 1)")
    case True
    show ?thesis
    proof (cases "- 1022 < ?b")
      case b: True
      have "pow2 ?b \<le> \<bar>?r\<bar>" using binary64_lower [OF z b] r0 by simp
      moreover have "\<bar>?r\<bar> < pow2 (?b + 1)" using True r0 by simp
      ultimately have "binade ?r = ?b" using b by (intro binade_eq) simp_all
      then show ?thesis by (rule same)
    next
      case False
      then have b: "?b = - 1022" using binade_ge [of z] by simp
      have "binade ?r = - 1022"
      proof (cases "\<bar>?r\<bar> < pow2 (- 1022)")
        case True
        then show ?thesis by (rule binade_subnormal)
      next
        case False
        then have "pow2 (- 1022) \<le> \<bar>?r\<bar>" by simp
        moreover have "\<bar>?r\<bar> < pow2 (- 1022 + 1)" using \<open>?r < pow2 (?b + 1)\<close> r0 b by simp
        ultimately show ?thesis by (intro binade_eq) simp_all
      qed
      then show ?thesis using b by (intro same) simp
    qed
  next
    case False
    with up have top: "?r = pow2 (?b + 1)" by simp
    have "binade ?r = ?b + 1"
      using binade_ge [of z] by (intro binade_eq) (simp_all add: top pow2_strict_mono)
    then have "quantum ?r = pow2 (?b + 1 - 52)" by (simp add: quantum_def)
    then have "2 ^ 52 * quantum ?r = pow2 (?b + 1)"
      using pow2_add [of "?b + 1 - 52" 52]
      by (simp add: pow2_numeral_52 mult.commute add.commute)
    then have "?r = of_int (2 ^ 52) * quantum ?r" using top by simp
    then show ?thesis by (rule is_binary64_multiple)
  qed
  then show ?thesis by (simp add: is_binary64_def)
qed

lemma binary64_idem [simp]: "binary64 (binary64 z) = binary64 z"
proof (cases "0 \<le> z")
  case True
  then show ?thesis by (rule binary64_idem_nonneg)
next
  case False
  then have "0 \<le> - z" by simp
  then have "binary64 (binary64 (- z)) = binary64 (- z)" by (rule binary64_idem_nonneg)
  then show ?thesis by (simp add: binary64_minus)
qed

lemma is_binary64_binary64 [simp]: "is_binary64 (binary64 z)"
  by (simp add: is_binary64_def)

lemma binary64_mono_nonneg:
  assumes x: "0 \<le> x" and xy: "x \<le> y"
  shows "binary64 x \<le> binary64 y"
proof -
  have y: "0 \<le> y" using x xy by simp
  have b: "binade x \<le> binade y" using x xy by (intro binade_mono) simp
  show ?thesis
  proof (cases "binade x = binade y")
    case True
    then have q: "quantum x = quantum y" by (simp add: quantum_def)
    have "x / quantum y \<le> y / quantum y" using xy by (simp add: divide_right_mono)
    then have "round_half_even (x / quantum y) \<le> round_half_even (y / quantum y)"
      by (rule rhe_mono)
    then have "(of_int (round_half_even (x / quantum y)) :: real)
        \<le> of_int (round_half_even (y / quantum y))" by simp
    then show ?thesis
      unfolding binary64_def q by (intro mult_right_mono) simp_all
  next
    case False
    with b have lt: "binade x + 1 \<le> binade y" by simp
    then have ny: "- 1022 < binade y" using binade_ge [of x] by simp
    have "binary64 x \<le> pow2 (binade x + 1)" using x by (rule binary64_upper)
    also have "\<dots> \<le> pow2 (binade y)" using lt by (rule pow2_mono)
    also have "\<dots> \<le> binary64 y" using y ny by (rule binary64_lower)
    finally show ?thesis .
  qed
qed

lemma binary64_le: "is_binary64 d \<Longrightarrow> 0 \<le> z \<Longrightarrow> z \<le> d \<Longrightarrow> binary64 z \<le> d"
  using binary64_mono_nonneg [of z d] by (simp add: is_binary64_def)

lemma binary64_ge: "is_binary64 d \<Longrightarrow> 0 \<le> d \<Longrightarrow> d \<le> z \<Longrightarrow> d \<le> binary64 z"
  using binary64_mono_nonneg [of d z] by (simp add: is_binary64_def)

text \<open>Dyadic numbers with at most 53 significant bits are binary64 values.\<close>

lemma is_binary64_dyadic:
  assumes e: "- 1074 \<le> e" and k: "\<bar>k\<bar> < 2 ^ 53"
  shows "is_binary64 (of_int k * pow2 e)"
proof -
  let ?x = "of_int k * pow2 e :: real"
  have le: "binade ?x - 52 \<le> e"
  proof (cases "- 1022 < binade ?x")
    case True
    then have "pow2 (binade ?x) \<le> \<bar>?x\<bar>" by (rule binade_lower)
    also have "\<bar>?x\<bar> = of_int \<bar>k\<bar> * pow2 e" by (simp add: abs_mult)
    also have "\<dots> < 2 ^ 53 * pow2 e"
    proof -
      have "(of_int \<bar>k\<bar> :: real) < 2 ^ 53"
        using k by (metis of_int_less_iff of_int_numeral of_int_power)
      then show ?thesis by (intro mult_strict_right_mono) simp_all
    qed
    also have "\<dots> = pow2 (e + 53)"
      by (simp add: pow2_add pow2_numeral_53)
    finally have "binade ?x < e + 53" by (rule pow2_less_cancel)
    then show ?thesis by simp
  next
    case False
    then have "binade ?x = - 1022" using binade_ge [of ?x] by simp
    then show ?thesis using e by simp
  qed
  define m where "m = nat (e - (binade ?x - 52))"
  have "pow2 e = pow2 (int m) * quantum ?x"
    using le pow2_add [of "e - (binade ?x - 52)" "binade ?x - 52"]
    by (simp add: m_def quantum_def)
  then have "?x = of_int (k * 2 ^ m) * quantum ?x"
    by (simp add: pow2_nat)
  then show ?thesis by (rule is_binary64_multiple)
qed

lemma is_binary64_int: "\<bar>k\<bar> < 2 ^ 53 \<Longrightarrow> is_binary64 (of_int k)"
  using is_binary64_dyadic [of 0 k] by (simp add: pow2_def)


lemma binary64_above_one:
  assumes f: "is_binary64 f" and f1: "1 < f"
  shows "1 + pow2 (- 52) \<le> f"
proof (cases "f < 2")
  case False
  have "pow2 (- 52) \<le> 1" by (simp add: pow2_def)
  with False show ?thesis by simp
next
  case True
  have "binade f = 0"
    using f1 True by (intro binade_eq) (simp_all add: pow2_def)
  then have q: "quantum f = pow2 (- 52)" by (simp add: quantum_def)
  let ?k = "round_half_even (f / quantum f)"
  have ef: "f = of_int ?k * pow2 (- 52)" using is_binary64_D [OF f] q by simp
  have one: "(1::real) = of_int (2 ^ 52) * pow2 (- 52)" by (simp add: pow2_def)
  have "of_int (2 ^ 52) * pow2 (- 52) < of_int ?k * pow2 (- 52)"
    using f1 ef one by simp
  then have "(of_int (2 ^ 52) :: real) < of_int ?k" by simp
  then have "2 ^ 52 < ?k" by (simp only: of_int_less_iff)
  then have "2 ^ 52 + 1 \<le> ?k" by simp
  then have "(of_int (2 ^ 52 + 1) :: real) \<le> of_int ?k" by (simp only: of_int_le_iff)
  then have "of_int (2 ^ 52 + 1) * pow2 (- 52) \<le> of_int ?k * pow2 (- 52)"
    by (intro mult_right_mono) simp_all
  then show ?thesis using ef by (simp add: algebra_simps pow2_def)
qed

lemma binary64_numeral: "numeral n < (2::int) ^ 53 \<Longrightarrow> binary64 (numeral n) = numeral n"
  using is_binary64_int [of "numeral n"] by (simp add: is_binary64_def)

lemma binary64_one [simp]: "binary64 1 = 1"
  using is_binary64_int [of 1] by (simp add: is_binary64_def)

lemmas normal_eval = pow2_def round_half_even_def

subsection \<open>Units outside a conversion table, zero purity, zero stock\<close>

subsection \<open>Evaluation and helper facts\<close>

lemma binary64_value:
  "- 1022 \<le> e \<Longrightarrow> pow2 e \<le> \<bar>x\<bar> \<Longrightarrow> \<bar>x\<bar> < pow2 (e + 1) \<Longrightarrow>
   of_int (round_half_even (x / pow2 (e - 52))) * pow2 (e - 52) = v \<Longrightarrow> binary64 x = v"
  using binary64_normal [of e x] by simp

lemmas value_eval = pow2_def round_half_even_def

lemmas float_ops = float_mul_def float_div_def float_sub_def binary64_numeral

lemmas format_eval = format_mass_def format_volume_def format_concentration_def
  format_3f_def format_thousandths_def round_half_even_def str_nat.simps digit_char_def

text \<open>
  The float literals of the module. Each value is stated twice: for the literal as it is
  written, and for the fraction that the simplifier makes of it.
\<close>

lemma py_float_milli: "py_float (1 / 1000) = 1152921504606847 / 2 ^ 60"
  unfolding py_float_def by (rule binary64_value [where e = "- 10"]) (simp_all add: value_eval)

lemma py_float_micro: "py_float (1 / 1000000) = 4722366482869645 / 2 ^ 72"
  unfolding py_float_def by (rule binary64_value [where e = "- 20"]) (simp_all add: value_eval)

lemma py_float_nano: "py_float (1 / 1000000000) = 4835703278458517 / 2 ^ 82"
  unfolding py_float_def by (rule binary64_value [where e = "- 30"]) (simp_all add: value_eval)

lemmas thresholds = py_float_milli py_float_micro py_float_nano

lemma py_float_milli_literal: "py_float 0.001 = 1152921504606847 / 2 ^ 60"
  using py_float_milli by simp

lemma py_float_micro_literal: "py_float 0.000001 = 4722366482869645 / 2 ^ 72"
  using py_float_micro by simp

lemma py_float_nano_literal: "py_float 0.000000001 = 4835703278458517 / 2 ^ 82"
  using py_float_nano by simp

lemmas literal_thresholds = py_float_milli_literal py_float_micro_literal py_float_nano_literal

lemma mass_unit_in_table: "MASS_TO_GRAMS u \<noteq> None"
  by (cases u) (simp_all add: MASS_TO_GRAMS_def)

lemma volume_unit_in_table: "VOLUME_TO_LITERS u \<noteq> None"
  by (cases u) (simp_all add: VOLUME_TO_LITERS_def)

lemma conc_unit_not_in_table:
  "CONC_TO_MOLAR u = None \<longleftrightarrow> u = PERCENT_WV \<or> u = PERCENT_VV"
  by (cases u) (simp_all add: CONC_TO_MOLAR_def)

lemma dict_get_absent: "d k = None \<Longrightarrow> dict_get d k dflt = dflt"
  by (simp add: dict_get_def)

lemma dict_get_molar: "dict_get CONC_TO_MOLAR MOLAR 1 = 1"
  by (simp add: dict_get_def CONC_TO_MOLAR_def)

lemma serial_dilution_loop_unit:
  "dict_get CONC_TO_MOLAR u 1 = dict_get CONC_TO_MOLAR u' 1 \<Longrightarrow>
   serial_dilution_loop k i c f u acc = serial_dilution_loop k i c f u' acc"
  by (induction k arbitrary: i c acc) (simp_all split: sum.splits)

text \<open>
  Claim C1, as the specification states it: converting a value whose unit is not in the
  dimension's conversion table (the percent units) fails with an unsupported-unit error
  and returns no number. The source has no such error: every conversion is
  \<^verbatim>\<open>value * TABLE.get(unit, 1)\<close>. With the unit \<^verbatim>\<open>% w/v\<close>, \<^verbatim>\<open>calculate_mass\<close>
  returns a number.
\<close>

theorem unsupported_unit_returns_number:
  "calculate_mass 2 1 1 100 LITERS PERCENT_WV = Inr (2, ''2.000 g'')"
  by (simp add: calculate_mass_def dict_get_def CONC_TO_MOLAR_def VOLUME_TO_LITERS_def
      py_truediv_def float_ops format_eval)

text \<open>
  Claim C1, amended: a unit that is not in the concentration table gets the default
  factor 1, so the value is taken unchanged, as if it were given in molar, and
  \<^verbatim>\<open>calculate_mass\<close>, \<^verbatim>\<open>calculate_stock_volume\<close> and \<^verbatim>\<open>calculate_serial_dilution\<close>
  return what they return for the unit molar. Every mass unit and every volume unit is in
  its table, so the default is never used for those two dimensions.
\<close>

theorem unlisted_unit_factor_one:
  "CONC_TO_MOLAR u = None \<Longrightarrow>
     x * dict_get CONC_TO_MOLAR u 1 = x \<and>
     calculate_mass molarity volume mw purity volume_unit u =
       calculate_mass molarity volume mw purity volume_unit MOLAR \<and>
     calculate_stock_volume c1 c2 v2 u c2_unit v2_unit =
       calculate_stock_volume c1 c2 v2 MOLAR c2_unit v2_unit \<and>
     calculate_stock_volume c1 c2 v2 c1_unit u v2_unit =
       calculate_stock_volume c1 c2 v2 c1_unit MOLAR v2_unit \<and>
     calculate_serial_dilution initial_conc dilution_factor num_dilutions u =
       calculate_serial_dilution initial_conc dilution_factor num_dilutions MOLAR \<and>
     MASS_TO_GRAMS mass_unit \<noteq> None \<and> VOLUME_TO_LITERS v_unit \<noteq> None"
proof -
  assume absent: "CONC_TO_MOLAR u = None"
  have g: "dict_get CONC_TO_MOLAR u 1 = (1::real)"
    using absent by (rule dict_get_absent)
  have g': "dict_get CONC_TO_MOLAR u 1 = dict_get CONC_TO_MOLAR MOLAR 1"
    by (simp only: g dict_get_molar)
  have 1: "x * dict_get CONC_TO_MOLAR u 1 = x"
    by (simp add: g)
  have 2: "calculate_mass molarity volume mw purity volume_unit u =
       calculate_mass molarity volume mw purity volume_unit MOLAR"
    by (simp only: calculate_mass_def g')
  have 3: "calculate_stock_volume c1 c2 v2 u c2_unit v2_unit =
       calculate_stock_volume c1 c2 v2 MOLAR c2_unit v2_unit"
    by (simp only: calculate_stock_volume_def g')
  have 4: "calculate_stock_volume c1 c2 v2 c1_unit u v2_unit =
       calculate_stock_volume c1 c2 v2 c1_unit MOLAR v2_unit"
    by (simp only: calculate_stock_volume_def g')
  have 5: "calculate_serial_dilution initial_conc dilution_factor num_dilutions u =
       calculate_serial_dilution initial_conc dilution_factor num_dilutions MOLAR"
    unfolding calculate_serial_dilution_def
    by (rule serial_dilution_loop_unit) (rule g')
  show ?thesis
    using 1 2 3 4 5 mass_unit_in_table volume_unit_in_table by blast
qed

theorem unlisted_unit_factor_one_witness:
  "CONC_TO_MOLAR PERCENT_VV = None \<and>
   (5::real) * dict_get CONC_TO_MOLAR PERCENT_VV 1 = 5 \<and>
   calculate_mass 2 1 1 100 LITERS PERCENT_VV = Inr (2, ''2.000 g'')"
proof -
  have absent: "CONC_TO_MOLAR PERCENT_VV = None"
    by (simp add: CONC_TO_MOLAR_def)
  have molar: "calculate_mass 2 1 1 100 LITERS MOLAR = Inr (2, ''2.000 g'')"
    by (simp add: calculate_mass_def dict_get_def CONC_TO_MOLAR_def VOLUME_TO_LITERS_def
        py_truediv_def float_ops format_eval)
  show ?thesis
    using absent molar
      unlisted_unit_factor_one [OF absent, of 5 2 1 1 100 LITERS 0 0 0 MOLAR LITERS MOLAR 0 1 0
        GRAMS LITERS]
    by simp
qed

text \<open>
  Claim C9: with a purity of exactly 0, \<^verbatim>\<open>calculate_mass\<close> divides by
  \<^verbatim>\<open>purity / 100.0 = 0\<close>; the \<^verbatim>\<open>ZeroDivisionError\<close> is not caught and reaches
  the caller, whatever the other arguments are.
\<close>

theorem calculate_mass_zero_purity_raises:
  "calculate_mass molarity volume mw 0 volume_unit conc_unit = Inl ZeroDivisionError"
  by (simp add: calculate_mass_def py_truediv_def float_div_def)

text \<open>
  Claim C7: when the stock concentration converted to molar (the float product of the
  concentration and the factor of its unit) is exactly 0, \<^verbatim>\<open>calculate_stock_volume\<close>
  returns without dividing: the stock volume is 0 with the fixed string \<^verbatim>\<open>"0 L"\<close>,
  and the diluent volume is the whole target volume in liters with its formatted string.
  The result does not depend on the target concentration, and it is a value, never an
  exception.
\<close>

theorem calculate_stock_volume_zero_stock:
  "float_mul c1 (dict_get CONC_TO_MOLAR c1_unit 1) = 0 \<Longrightarrow>
   calculate_stock_volume c1 c2 v2 c1_unit c2_unit v2_unit =
     Inr (0, ''0 L'', float_mul v2 (dict_get VOLUME_TO_LITERS v2_unit 1),
          format_volume (float_mul v2 (dict_get VOLUME_TO_LITERS v2_unit 1)))"
  by (simp add: calculate_stock_volume_def Let_def)

lemma tenth: "py_float (1 / 10) = 3602879701896397 / 2 ^ 55"
  unfolding py_float_def by (rule binary64_value [where e = "- 4"]) (simp_all add: value_eval)

lemma tenth_literal: "py_float 0.1 = 3602879701896397 / 2 ^ 55"
  using tenth by simp

lemma float_hundred_milli: "float_mul 100 (py_float 0.001) = py_float 0.1"
proof -
  have "binary64 (100 * (1152921504606847 / 2 ^ 60)) = 3602879701896397 / 2 ^ 55"
    by (rule binary64_value [where e = "- 4"]) (simp_all add: value_eval)
  then show ?thesis
    unfolding float_mul_def py_float_milli_literal tenth_literal .
qed

lemma format_volume_tenth: "format_volume (py_float 0.1) = ''100.000 mL''"
proof -
  have m: "float_mul (3602879701896397 / 2 ^ 55) 1000 = 100"
    unfolding float_mul_def by (rule binary64_value [where e = 6]) (simp_all add: value_eval)
  have f: "format_3f 100 = ''100.000''"
    by (simp add: format_eval)
  have "format_volume (3602879701896397 / 2 ^ 55) = format_3f 100 @ '' mL''"
    using m by (simp add: format_volume_def py_float_milli)
  then show ?thesis
    unfolding tenth_literal f by simp
qed

theorem calculate_stock_volume_zero_stock_witness:
  "float_mul 0 (dict_get CONC_TO_MOLAR MILLIMOLAR 1) = 0 \<and>
   calculate_stock_volume 0 1 100 MILLIMOLAR MOLAR MILLILITERS =
     Inr (0, ''0 L'', py_float 0.1, ''100.000 mL'')"
proof -
  have z: "float_mul 0 (dict_get CONC_TO_MOLAR MILLIMOLAR 1) = 0"
    by (simp add: float_mul_def)
  have v: "float_mul 100 (dict_get VOLUME_TO_LITERS MILLILITERS 1) = py_float 0.1"
    using float_hundred_milli by (simp add: dict_get_def VOLUME_TO_LITERS_def)
  show ?thesis
    using calculate_stock_volume_zero_stock [OF z, of 1 100 MOLAR MILLILITERS] z
    by (simp only: v format_volume_tenth)
qed

subsection \<open>Serial dilution\<close>

lemma divided_times_0: "divided_times c f 0 = c"
  by (simp add: divided_times_def)

lemma divided_times_Suc: "divided_times c f (Suc i) = float_div (divided_times c f i) f"
  by (simp add: divided_times_def)

lemma divided_times_shift: "divided_times (float_div c f) f i = float_div (divided_times c f i) f"
  by (induction i) (simp_all add: divided_times_0 divided_times_Suc)

lemma dilution_entry_shift:
  "dilution_entry (float_div c f) f u j = (int j, snd (dilution_entry c f u (Suc j)))"
  by (simp add: dilution_entry_def divided_times_shift divided_times_Suc)

text \<open>
  The loop in closed form, for a divisor that is not zero: started at index \<open>i\<close> with
  concentration \<open>c\<close>, it appends the next \<open>todo\<close> entries of the series of \<open>c\<close>.
\<close>

lemma serial_dilution_loop_closed:
  "dilution_factor \<noteq> 0 \<Longrightarrow>
   serial_dilution_loop todo i c dilution_factor u acc =
     Inr (acc @ map (\<lambda>j. (i + int j, snd (dilution_entry c dilution_factor u j))) [0..<todo])"
proof (induction todo arbitrary: i c acc)
  case 0
  then show ?case by simp
next
  case (Suc todo)
  let ?first = "(i, c, format_concentration (float_mul c (dict_get CONC_TO_MOLAR u 1)))"
  have split: "[0..<Suc todo] = 0 # map Suc [0..<todo]"
    by (simp add: upt_conv_Cons map_Suc_upt del: upt_Suc)
  have first: "snd (dilution_entry c dilution_factor u 0) = snd ?first"
    by (simp add: dilution_entry_def divided_times_0)
  have rest: "snd (dilution_entry (float_div c dilution_factor) dilution_factor u j) =
      snd (dilution_entry c dilution_factor u (Suc j))" for j
    by (simp add: dilution_entry_shift)
  have "serial_dilution_loop (Suc todo) i c dilution_factor u acc =
      serial_dilution_loop todo (i + 1) (float_div c dilution_factor) dilution_factor u
        (acc @ [?first])"
    using Suc.prems by (simp add: py_truediv_def)
  also have "\<dots> = Inr ((acc @ [?first]) @
      map (\<lambda>j. (i + 1 + int j,
                 snd (dilution_entry (float_div c dilution_factor) dilution_factor u j)))
        [0..<todo])"
    using Suc.prems by (rule Suc.IH)
  also have "\<dots> = Inr (acc @
      map (\<lambda>j. (i + int j, snd (dilution_entry c dilution_factor u j))) [0..<Suc todo])"
    by (simp only: split rest) (simp add: first o_def add.assoc)
  finally show ?case .
qed

lemma calculate_serial_dilution_closed:
  "dilution_factor \<noteq> 0 \<Longrightarrow>
   calculate_serial_dilution initial_conc dilution_factor num_dilutions conc_unit =
     Inr (map (dilution_entry initial_conc dilution_factor conc_unit)
            [0..<nat (num_dilutions + 1)])"
  by (simp add: calculate_serial_dilution_def serial_dilution_loop_closed dilution_entry_def)

text \<open>
  Claim C6, as the specification states it: for every dilution factor and every number of
  dilutions that is not negative, \<^verbatim>\<open>calculate_serial_dilution\<close> returns
  \<open>num_dilutions + 1\<close> entries. Each iteration divides after it has appended its entry,
  the last one too, so a dilution factor of 0 raises \<^verbatim>\<open>ZeroDivisionError\<close> in the
  first iteration and nothing is returned.
\<close>

theorem serial_dilution_zero_factor_raises:
  "calculate_serial_dilution 1000 0 3 MOLAR = Inl ZeroDivisionError"
  by (simp add: calculate_serial_dilution_def py_truediv_def eval_nat_numeral)

text \<open>
  Claim C6, amended: for every initial concentration, every dilution factor other than 0
  and every number of dilutions that is not negative, the function returns exactly
  \<open>num_dilutions + 1\<close> entries, and entry \<open>i\<close> is the index \<open>i\<close>, the initial
  concentration divided \<open>i\<close> times by the dilution factor (in the caller's unit, one float
  division after the other), and the formatted string of that concentration times the
  unit's factor to molar.
\<close>

theorem serial_dilution_entries:
  "dilution_factor \<noteq> 0 \<Longrightarrow> 0 \<le> num_dilutions \<Longrightarrow>
   calculate_serial_dilution initial_conc dilution_factor num_dilutions conc_unit =
     Inr (map (dilution_entry initial_conc dilution_factor conc_unit) [0..<nat num_dilutions + 1])"
  by (simp add: calculate_serial_dilution_closed nat_add_distrib)

theorem serial_dilution_entries_witness:
  "(10::real) \<noteq> 0 \<and> (0::int) \<le> 3 \<and>
   calculate_serial_dilution 1000 10 3 MOLAR =
     Inr [(0, 1000, ''1000.000 M''), (1, 100, ''100.000 M''), (2, 10, ''10.000 M''),
          (3, 1, ''1.000 M'')]"
proof -
  have idx: "[0..<nat 3 + 1] = [0, Suc 0, Suc (Suc 0), Suc (Suc (Suc 0))]"
    by (simp add: eval_nat_numeral)
  have "calculate_serial_dilution 1000 10 3 MOLAR =
     Inr (map (dilution_entry 1000 10 MOLAR) [0..<nat 3 + 1])"
    using serial_dilution_entries [of 10 3 1000 MOLAR] by simp
  then show ?thesis
    unfolding idx
    by (simp add: dilution_entry_def divided_times_def dict_get_def CONC_TO_MOLAR_def
        float_ops format_eval)
qed

lemma quantum_mono: "\<bar>x\<bar> \<le> \<bar>y\<bar> \<Longrightarrow> quantum x \<le> quantum y"
  unfolding quantum_def by (intro pow2_mono) (simp add: binade_mono)

lemma quantum_le: "pow2 (- 1022) \<le> c \<Longrightarrow> quantum c \<le> c * pow2 (- 52)"
proof -
  assume c: "pow2 (- 1022) \<le> c"
  have "pow2 (binade c) \<le> \<bar>c\<bar>"
  proof (cases "- 1022 < binade c")
    case True
    then show ?thesis by (rule binade_lower)
  next
    case False
    then have "binade c = - 1022" using binade_ge [of c] by simp
    then show ?thesis using c by simp
  qed
  moreover have "0 < c" using c pow2_pos [of "- 1022"] by linarith
  ultimately have "pow2 (binade c) \<le> c" by simp
  then have "pow2 (binade c) * pow2 (- 52) \<le> c * pow2 (- 52)"
    by (intro mult_right_mono) simp_all
  then show ?thesis
    using pow2_add [of "binade c" "- 52"] by (simp add: quantum_def)
qed

text \<open>Dividing a normal float by a float above 1 gives a smaller float.\<close>

lemma float_div_less:
  assumes c: "pow2 (- 1022) \<le> c" and f: "is_binary64 f" and f1: "1 < f"
  shows "float_div c f < c"
proof -
  let ?eps = "pow2 (- 52)"
  have c0: "0 < c" using c pow2_pos [of "- 1022"] by linarith
  have f2: "1 + ?eps \<le> f" using f f1 by (rule binary64_above_one)
  have y: "c / f \<le> c / (1 + ?eps)"
    using f2 c0 by (intro divide_left_mono) (simp_all add: pow2_def)
  have "\<bar>c / f\<bar> \<le> \<bar>c\<bar>"
    using c0 f1 by (simp add: field_simps)
  then have q: "quantum (c / f) \<le> c * ?eps"
    using quantum_mono [of "c / f" c] quantum_le [OF c] by linarith
  have "binary64 (c / f) \<le> c / f + quantum (c / f) / 2"
    using binary64_error [of "c / f"] by linarith
  also have "\<dots> \<le> c / (1 + ?eps) + c * ?eps / 2"
    using y q by linarith
  also have "\<dots> = c * (1 / (1 + ?eps) + ?eps / 2)"
    by (simp add: algebra_simps)
  also have "\<dots> < c * 1"
  proof -
    have "1 / (1 + ?eps) + ?eps / 2 < 1" by (simp add: pow2_def)
    then show ?thesis using c0 by (intro mult_strict_left_mono)
  qed
  finally show ?thesis by (simp add: float_div_def)
qed

lemma float_div_le:
  assumes c: "is_binary64 c" and c0: "0 \<le> c" and f1: "1 < f"
  shows "float_div c f \<le> c"
proof -
  have "c / f \<le> c / 1" using c0 f1 by (intro divide_left_mono) simp_all
  then have "c / f \<le> c" by simp
  moreover have "0 \<le> c / f" using c0 f1 by simp
  ultimately show ?thesis
    unfolding float_div_def using c by (intro binary64_le)
qed

lemma divided_times_binary64:
  "is_binary64 c \<Longrightarrow> is_binary64 (divided_times c f i)"
  by (cases i) (simp_all add: divided_times_0 divided_times_Suc float_div_def)

lemma divided_times_nonneg:
  "0 \<le> c \<Longrightarrow> 0 < f \<Longrightarrow> 0 \<le> divided_times c f i"
  by (induction i) (simp_all add: divided_times_0 divided_times_Suc float_div_def binary64_nonneg)

lemma raw_concentrations_series:
  "raw_concentrations (map (dilution_entry c f u) [0..<n]) = map (divided_times c f) [0..<n]"
  by (simp add: raw_concentrations_def dilution_entry_def o_def)

lemma pow2_nonzero [simp]: "pow2 e \<noteq> 0"
  by (metis less_irrefl pow2_pos)

lemma float_div_smallest: "float_div (pow2 (- 1074)) 1.5 = pow2 (- 1074)"
proof -
  have s: "\<bar>pow2 (- 1074) / 1.5\<bar> < pow2 (- 1022)"
    by (simp add: pow2_def)
  have "pow2 (- 1074) / 1.5 / pow2 (- 1074) = 2 / 3"
    by simp
  then have "round_half_even (pow2 (- 1074) / 1.5 / pow2 (- 1074)) = 1"
    by (simp add: round_half_even_def)
  then show ?thesis
    unfolding float_div_def binary64_subnormal [OF s] by simp
qed

lemma float_mul_smallest:
  "\<bar>k\<bar> < 2 ^ 53 \<Longrightarrow> float_mul (pow2 (- 1074)) (of_int k) = of_int k * pow2 (- 1074)"
  using is_binary64_dyadic [of "- 1074" k]
  by (simp add: float_mul_def is_binary64_def mult.commute)

lemma format_concentration_smallest: "format_concentration (pow2 (- 1074)) = ''0.000 nM''"
proof -
  have n: "float_mul (pow2 (- 1074)) 1000000000 = 1000000000 * pow2 (- 1074)"
    using float_mul_smallest [of 1000000000] by simp
  have s: "format_3f (1000000000 * pow2 (- 1074)) = ''0.000''"
    by (simp add: pow2_def format_eval)
  have c: "\<not> 1 \<le> pow2 (- 1074)" "\<not> py_float 0.001 \<le> pow2 (- 1074)"
      "\<not> py_float 0.000001 \<le> pow2 (- 1074)"
    by (simp_all add: thresholds pow2_def)
  show ?thesis
    unfolding format_concentration_def n s using c by simp
qed

text \<open>
  Claim C4, amended: for every float initial concentration, every float dilution factor
  above 1 and every number of dilutions, the function returns a series in which every raw
  concentration that is at least two to the power \<open>-1022\<close> (the smallest normal float)
  is followed by a strictly smaller one; and when the initial concentration is not
  negative, no raw concentration is above the one before it.
\<close>

theorem serial_dilution_decreasing:
  "is_binary64 initial_conc \<Longrightarrow> is_binary64 dilution_factor \<Longrightarrow> 1 < dilution_factor \<Longrightarrow>
   (\<exists>entries.
      calculate_serial_dilution initial_conc dilution_factor num_dilutions conc_unit = Inr entries \<and>
      (\<forall>i. Suc i < length entries \<and> pow2 (- 1022) \<le> raw_concentrations entries ! i \<longrightarrow>
           raw_concentrations entries ! Suc i < raw_concentrations entries ! i) \<and>
      (\<forall>i. Suc i < length entries \<and> 0 \<le> initial_conc \<longrightarrow>
           raw_concentrations entries ! Suc i \<le> raw_concentrations entries ! i))"
proof -
  assume c: "is_binary64 initial_conc" and f: "is_binary64 dilution_factor"
    and f1: "1 < dilution_factor"
  let ?n = "nat (num_dilutions + 1)"
  let ?entries = "map (dilution_entry initial_conc dilution_factor conc_unit) [0..<?n]"
  let ?c = "divided_times initial_conc dilution_factor"
  have r: "calculate_serial_dilution initial_conc dilution_factor num_dilutions conc_unit =
      Inr ?entries"
    using f1 by (intro calculate_serial_dilution_closed) simp
  have raw: "raw_concentrations ?entries ! i = ?c i" if "i < ?n" for i
    using that by (simp add: raw_concentrations_series)
  have strict: "?c (Suc i) < ?c i" if "pow2 (- 1022) \<le> ?c i" for i
    using that f f1 by (simp add: divided_times_Suc float_div_less)
  have weak: "?c (Suc i) \<le> ?c i" if "0 \<le> initial_conc" for i
  proof -
    have "is_binary64 (?c i)" using c by (rule divided_times_binary64)
    moreover have "0 \<le> ?c i" using that f1 by (intro divided_times_nonneg) simp_all
    ultimately show ?thesis using f1 by (simp add: divided_times_Suc float_div_le)
  qed
  have "(\<forall>i. Suc i < length ?entries \<and> pow2 (- 1022) \<le> raw_concentrations ?entries ! i \<longrightarrow>
           raw_concentrations ?entries ! Suc i < raw_concentrations ?entries ! i) \<and>
      (\<forall>i. Suc i < length ?entries \<and> 0 \<le> initial_conc \<longrightarrow>
           raw_concentrations ?entries ! Suc i \<le> raw_concentrations ?entries ! i)"
  proof (intro conjI allI impI; elim conjE)
    fix i
    assume i: "Suc i < length ?entries" and n: "pow2 (- 1022) \<le> raw_concentrations ?entries ! i"
    from i have "Suc i < ?n" "i < ?n" by simp_all
    then show "raw_concentrations ?entries ! Suc i < raw_concentrations ?entries ! i"
      using n strict [of i] by (simp only: raw)
  next
    fix i
    assume i: "Suc i < length ?entries" and n: "0 \<le> initial_conc"
    from i have "Suc i < ?n" "i < ?n" by simp_all
    then show "raw_concentrations ?entries ! Suc i \<le> raw_concentrations ?entries ! i"
      using weak [OF n, of i] by (simp only: raw)
  qed
  with r show ?thesis by blast
qed

lemma float_mul_one: "is_binary64 x \<Longrightarrow> float_mul x 1 = x"
  by (simp add: float_mul_def is_binary64_def)

lemma is_binary64_float_div [simp]: "is_binary64 (float_div a b)"
  by (simp add: float_div_def)

lemma is_binary64_float_mul [simp]: "is_binary64 (float_mul a b)"
  by (simp add: float_mul_def)

lemma format_concentration_zero: "format_concentration 0 = ''0.000 nM''"
  by (simp add: format_concentration_def thresholds float_mul_def format_3f_def
      format_thousandths_def str_nat.simps digit_char_def)

text \<open>
  Claim C4, as the specification states it: for every initial concentration and every
  dilution factor above 1, each raw concentration is strictly below the one before it.
  From an initial concentration of 0 every entry is 0. And from the smallest positive
  float, two to the power \<open>-1074\<close>, with the factor 1.5, the quotient rounds back to
  that float: the two entries are equal.
\<close>

theorem serial_dilution_not_decreasing:
  "calculate_serial_dilution 0 2 1 MOLAR = Inr [(0, 0, ''0.000 nM''), (1, 0, ''0.000 nM'')] \<and>
   calculate_serial_dilution (pow2 (- 1074)) 1.5 1 MOLAR =
     Inr [(0, pow2 (- 1074), ''0.000 nM''), (1, pow2 (- 1074), ''0.000 nM'')]"
proof -
  have idx: "[0..<nat (1 + 1)] = [0, Suc 0]"
    by (simp add: eval_nat_numeral)
  have m: "float_mul (pow2 (- 1074)) 1 = pow2 (- 1074)"
    using float_mul_smallest [of 1] by simp
  have "calculate_serial_dilution (pow2 (- 1074)) 1.5 1 MOLAR =
     Inr (map (dilution_entry (pow2 (- 1074)) 1.5 MOLAR) [0..<nat (1 + 1)])"
    by (rule calculate_serial_dilution_closed) simp
  then have tiny: "calculate_serial_dilution (pow2 (- 1074)) 1.5 1 MOLAR =
     Inr [(0, pow2 (- 1074), ''0.000 nM''), (1, pow2 (- 1074), ''0.000 nM'')]"
    unfolding idx
    by (simp add: dilution_entry_def divided_times_0 divided_times_Suc dict_get_def
        CONC_TO_MOLAR_def float_div_smallest [simplified] m format_concentration_smallest)
  have "calculate_serial_dilution 0 2 1 MOLAR =
     Inr (map (dilution_entry 0 2 MOLAR) [0..<nat (1 + 1)])"
    by (rule calculate_serial_dilution_closed) simp
  then have zero: "calculate_serial_dilution 0 2 1 MOLAR =
     Inr [(0, 0, ''0.000 nM''), (1, 0, ''0.000 nM'')]"
    unfolding idx
    by (simp add: dilution_entry_def divided_times_0 divided_times_Suc dict_get_def
        CONC_TO_MOLAR_def float_div_def float_mul_def format_concentration_zero)
  from zero tiny show ?thesis by (rule conjI)
qed

lemma third: "float_div 1 3 = 6004799503160661 / 2 ^ 54"
  unfolding float_div_def by (rule binary64_value [where e = "- 2"]) (simp_all add: value_eval)

lemma ninth: "float_div (6004799503160661 / 2 ^ 54) 3 = 2001599834386887 / 2 ^ 54"
  unfolding float_div_def by (rule binary64_value [where e = "- 4"]) (simp_all add: value_eval)

lemma format_concentration_third:
  "format_concentration (6004799503160661 / 2 ^ 54) = ''333.333 mM''"
proof -
  have m: "float_mul (6004799503160661 / 2 ^ 54) 1000 = 5864062014805333 / 2 ^ 44"
    unfolding float_mul_def by (rule binary64_value [where e = 8]) (simp_all add: value_eval)
  have f: "format_3f (5864062014805333 / 2 ^ 44) = ''333.333''"
    by (simp add: format_eval)
  have c: "\<not> (1::real) \<le> 6004799503160661 / 2 ^ 54"
      "py_float 0.001 \<le> 6004799503160661 / 2 ^ 54"
    by (simp_all add: thresholds)
  show ?thesis
    unfolding format_concentration_def m f using c by simp
qed

lemma format_concentration_ninth:
  "format_concentration (2001599834386887 / 2 ^ 54) = ''111.111 mM''"
proof -
  have m: "float_mul (2001599834386887 / 2 ^ 54) 1000 = 7818749353073777 / 2 ^ 46"
    unfolding float_mul_def by (rule binary64_value [where e = 6]) (simp_all add: value_eval)
  have f: "format_3f (7818749353073777 / 2 ^ 46) = ''111.111''"
    by (simp add: format_eval)
  have c: "\<not> (1::real) \<le> 2001599834386887 / 2 ^ 54"
      "py_float 0.001 \<le> 2001599834386887 / 2 ^ 54"
    by (simp_all add: thresholds)
  show ?thesis
    unfolding format_concentration_def m f using c by simp
qed

lemma format_concentration_one: "format_concentration 1 = ''1.000 M''"
  by (simp add: format_eval)

theorem serial_dilution_decreasing_witness:
  "is_binary64 1 \<and> is_binary64 3 \<and> (1::real) < 3 \<and>
   calculate_serial_dilution 1 3 2 MOLAR =
     Inr [(0, 1, ''1.000 M''), (1, 6004799503160661 / 2 ^ 54, ''333.333 mM''),
          (2, 2001599834386887 / 2 ^ 54, ''111.111 mM'')] \<and>
   pow2 (- 1022) \<le> 1 \<and> 6004799503160661 / 2 ^ 54 < (1::real) \<and>
   pow2 (- 1022) \<le> 6004799503160661 / 2 ^ 54 \<and>
   2001599834386887 / 2 ^ 54 < (6004799503160661 / 2 ^ 54 :: real)"
proof -
  define t :: real where "t = 6004799503160661 / 2 ^ 54"
  define n :: real where "n = 2001599834386887 / 2 ^ 54"
  have b1: "is_binary64 1" by (simp add: is_binary64_def)
  have b3: "is_binary64 3" by (simp add: is_binary64_def binary64_numeral)
  have t: "float_div 1 3 = t" unfolding t_def by (rule third)
  have n: "float_div t 3 = n" unfolding t_def n_def by (rule ninth)
  have bt: "is_binary64 t" unfolding t [symmetric] by simp
  have bn: "is_binary64 n" unfolding n [symmetric] by simp
  have ft: "format_concentration t = ''333.333 mM''"
    unfolding t_def by (rule format_concentration_third)
  have fn: "format_concentration n = ''111.111 mM''"
    unfolding n_def by (rule format_concentration_ninth)
  have idx: "[0..<nat (2 + 1)] = [0, Suc 0, Suc (Suc 0)]"
    by (simp add: eval_nat_numeral)
  have "calculate_serial_dilution 1 3 2 MOLAR =
     Inr (map (dilution_entry 1 3 MOLAR) [0..<nat (2 + 1)])"
    by (rule calculate_serial_dilution_closed) simp
  then have v: "calculate_serial_dilution 1 3 2 MOLAR =
     Inr [(0, 1, ''1.000 M''), (1, t, ''333.333 mM''), (2, n, ''111.111 mM'')]"
    unfolding idx
    by (simp add: dilution_entry_def divided_times_0 divided_times_Suc dict_get_molar
        t n float_mul_one bt bn b1 ft fn format_concentration_one)
  obtain entries where
    e: "calculate_serial_dilution 1 3 2 MOLAR = Inr entries" and
    d: "\<forall>i. Suc i < length entries \<and> pow2 (- 1022) \<le> raw_concentrations entries ! i \<longrightarrow>
           raw_concentrations entries ! Suc i < raw_concentrations entries ! i"
    using serial_dilution_decreasing [OF b1 b3, of 2 MOLAR] by auto
  have es: "entries = [(0, 1, ''1.000 M''), (1, t, ''333.333 mM''), (2, n, ''111.111 mM'')]"
    using e v by simp
  have p1: "pow2 (- 1022) \<le> 1" by (simp add: pow2_def)
  have pt: "pow2 (- 1022) \<le> t" by (simp add: pow2_def t_def)
  have "Suc 0 < length entries \<and> pow2 (- 1022) \<le> raw_concentrations entries ! 0"
    using p1 by (simp add: es raw_concentrations_def)
  then have "raw_concentrations entries ! Suc 0 < raw_concentrations entries ! 0"
    using d by blast
  then have l1: "t < 1" by (simp add: es raw_concentrations_def)
  have "Suc (Suc 0) < length entries \<and> pow2 (- 1022) \<le> raw_concentrations entries ! Suc 0"
    using pt by (simp add: es raw_concentrations_def)
  then have "raw_concentrations entries ! Suc (Suc 0) < raw_concentrations entries ! Suc 0"
    using d by blast
  then have l2: "n < t" by (simp add: es raw_concentrations_def)
  show ?thesis
    using b1 b3 v p1 pt l1 l2 unfolding t_def n_def by simp
qed

subsection \<open>Recipe scaling\<close>


lemma is_binary64_py_round [simp]: "is_binary64 (py_round x ndigits)"
  by (simp add: py_round_def)

lemma float_div_self: "v \<noteq> 0 \<Longrightarrow> float_div v v = 1"
  by (simp add: float_div_def)

lemma py_round_binary64_fixed: "py_round (binary64 x) 4 = x \<longleftrightarrow> py_round x 4 = x"
proof
  assume a: "py_round (binary64 x) 4 = x"
  have "is_binary64 (py_round (binary64 x) 4)" by simp
  then have "is_binary64 x" by (simp only: a)
  then have "binary64 x = x" by (simp add: is_binary64_def)
  with a show "py_round x 4 = x" by simp
next
  assume a: "py_round x 4 = x"
  have "is_binary64 (py_round x 4)" by simp
  then have "is_binary64 x" by (simp only: a)
  then have "binary64 x = x" by (simp add: is_binary64_def)
  with a show "py_round (binary64 x) 4 = x" by simp
qed

lemma amount_of_Some: "amount_of d = Some x \<longleftrightarrow> d ''amount'' = Some (Num x)"
  by (auto simp: amount_of_def split: option.splits pyval.splits)

lemma recipe_steps_Cons:
  "recipe_steps h (a # rest) \<longleftrightarrow>
     a < length h \<and> amount_of (h ! a) \<noteq> None \<and> recipe_steps h rest"
  by (simp add: recipe_steps_def)

lemma recipe_steps_nth:
  "recipe_steps h steps \<Longrightarrow> a \<in> set steps \<Longrightarrow> a < length h \<and> amount_of (h ! a) \<noteq> None"
  by (simp add: recipe_steps_def list_all_iff)

lemma recipe_steps_append:
  "recipe_steps h steps \<Longrightarrow> recipe_steps (h @ h') steps"
  by (auto simp: recipe_steps_def list_all_iff nth_append)

lemma scale_recipe_loop_closed:
  "recipe_steps h steps \<Longrightarrow>
   scale_recipe_loop h steps f acc =
     Inr (h @ map (\<lambda>a. scaled_step f (h ! a)) steps,
          acc @ [length h..<length h + length steps])"
proof (induction steps arbitrary: h acc)
  case Nil
  then show ?case by simp
next
  case (Cons a rest)
  from Cons.prems obtain x where
    a: "a < length h" and x: "amount_of (h ! a) = Some x" and rest: "recipe_steps h rest"
    by (auto simp: recipe_steps_Cons)
  let ?d = "scaled_step f (h ! a)"
  have d: "?d = (h ! a)(''amount'' \<mapsto> Num (py_round (float_mul x f) 4))"
    by (simp add: scaled_step_def x)
  have lookup: "((h @ [h ! a]) ! a) ''amount'' = Some (Num x)"
    using a x by (simp add: nth_append amount_of_Some)
  have store: "(h @ [h ! a])[length h :=
      ((h @ [h ! a]) ! length h)(''amount'' \<mapsto> Num (py_round (float_mul x f) 4))] = h @ [?d]"
    by (simp add: d)
  have "scale_recipe_loop h (a # rest) f acc =
      scale_recipe_loop ((h @ [h ! a])[length h :=
        ((h @ [h ! a]) ! length h)(''amount'' \<mapsto> Num (py_round (float_mul x f) 4))])
        rest f (acc @ [length h])"
    by (simp add: Let_def lookup)
  then have step: "scale_recipe_loop h (a # rest) f acc =
      scale_recipe_loop (h @ [?d]) rest f (acc @ [length h])"
    by (simp only: store)
  have same: "map (\<lambda>b. scaled_step f ((h @ [?d]) ! b)) rest = map (\<lambda>b. scaled_step f (h ! b)) rest"
    using recipe_steps_nth [OF rest] by (simp add: nth_append)
  have addrs: "[length h] @ [length (h @ [?d])..<length (h @ [?d]) + length rest] =
      [length h..<length h + length (a # rest)]"
    by (simp add: upt_conv_Cons del: upt_Suc)
  have "scale_recipe_loop (h @ [?d]) rest f (acc @ [length h]) =
      Inr ((h @ [?d]) @ map (\<lambda>b. scaled_step f ((h @ [?d]) ! b)) rest,
           (acc @ [length h]) @ [length (h @ [?d])..<length (h @ [?d]) + length rest])"
    by (rule Cons.IH) (rule recipe_steps_append [OF rest])
  also have "\<dots> = Inr (h @ map (\<lambda>b. scaled_step f (h ! b)) (a # rest),
           acc @ [length h..<length h + length (a # rest)])"
    using addrs by (simp only: same append_assoc) simp
  finally show ?case using step by simp
qed

lemma scale_recipe_closed:
  "old \<noteq> 0 \<Longrightarrow> recipe_steps h steps \<Longrightarrow>
   scale_recipe h steps new old =
     Inr (h @ map (\<lambda>a. scaled_step (float_div new old) (h ! a)) steps,
          [length h..<length h + length steps])"
  by (simp add: scale_recipe_def py_truediv_def scale_recipe_loop_closed)

lemma scale_recipe_value_closed:
  "old \<noteq> 0 \<Longrightarrow> recipe_steps h steps \<Longrightarrow>
   scale_recipe_value h steps new old =
     Inr (map (scaled_step (float_div new old)) (steps_of h steps))"
proof -
  assume old: "old \<noteq> 0" and rs: "recipe_steps h steps"
  let ?new = "map (\<lambda>a. scaled_step (float_div new old) (h ! a)) steps"
  have "map (\<lambda>a. (h @ ?new) ! a) [length h..<length h + length steps] = ?new"
    by (rule nth_equalityI) (simp_all add: nth_append del: upt_Suc)
  then show ?thesis
    by (simp add: scale_recipe_value_def scale_recipe_closed [OF old rs] steps_of_def o_def)
qed

lemma scaled_step_fixed:
  "amount_of d \<noteq> None \<Longrightarrow> scaled_step 1 d = d \<longleftrightarrow> amount_is_rounded d"
proof -
  assume "amount_of d \<noteq> None"
  then obtain x where x: "amount_of d = Some x" by auto
  then have l: "d ''amount'' = Some (Num x)" by (simp add: amount_of_Some)
  have "d(''amount'' \<mapsto> Num (py_round (binary64 x) 4)) = d \<longleftrightarrow> py_round (binary64 x) 4 = x"
    using l by (auto simp: fun_upd_idem_iff)
  then show ?thesis
    by (simp add: scaled_step_def amount_is_rounded_def x float_mul_def py_round_binary64_fixed)
qed

lemma recipe_steps_amounts:
  "recipe_steps h steps \<Longrightarrow> d \<in> set (steps_of h steps) \<Longrightarrow> amount_of d \<noteq> None"
  by (auto simp: recipe_steps_def steps_of_def list_all_iff)

lemma py_float_0156: "py_float (156 / 10000) = 4496393867966703 / 2 ^ 58"
  unfolding py_float_def by (rule binary64_value [where e = "- 7"]) (simp_all add: value_eval)

text \<open>
  Claim C3, as the specification states it: for every list of recipe steps and every
  volume \<open>v > 0\<close>, scaling from \<open>v\<close> to \<open>v\<close> returns the steps unchanged, amounts
  included. The factor is 1, but the amount still goes through
  \<^verbatim>\<open>round(\<dots>, 4)\<close>: an amount of 0.015625 comes back as the float 0.0156.
\<close>

theorem scale_recipe_identity_rounds:
  "scale_recipe_value [[''reagent'' \<mapsto> Str ''NaCl'', ''amount'' \<mapsto> Num 0.015625]] [0] 1 1 =
     Inr [[''reagent'' \<mapsto> Str ''NaCl'', ''amount'' \<mapsto> Num (py_float 0.0156)]] \<and>
   scale_recipe_value [[''reagent'' \<mapsto> Str ''NaCl'', ''amount'' \<mapsto> Num 0.015625]] [0] 1 1 \<noteq>
     Inr (steps_of [[''reagent'' \<mapsto> Str ''NaCl'', ''amount'' \<mapsto> Num 0.015625]] [0])"
proof -
  let ?d = "[''reagent'' \<mapsto> Str ''NaCl'', ''amount'' \<mapsto> Num 0.015625]"
  let ?d' = "[''reagent'' \<mapsto> Str ''NaCl'', ''amount'' \<mapsto> Num (py_float 0.0156)]"
  have "is_binary64 (of_int 1 * pow2 (- 6))"
    by (rule is_binary64_dyadic) simp_all
  then have m: "float_mul 0.015625 1 = 0.015625"
    by (simp add: float_mul_def is_binary64_def pow2_def)
  have r: "py_round 0.015625 4 = py_float 0.0156"
    by (simp add: py_round_def py_float_def round_half_even_def)
  have mr: "py_round (float_mul 0.015625 1) 4 = py_float 0.0156"
    unfolding m by (rule r)
  have v: "scale_recipe_value [?d] [0] 1 1 = Inr [?d']"
    using mr
    by (simp add: scale_recipe_value_def scale_recipe_def py_truediv_def steps_of_def
        float_div_def)
  have "py_float 0.0156 \<noteq> 0.015625"
    using py_float_0156 by simp
  then have "?d' ''amount'' \<noteq> ?d ''amount''"
    by simp
  then have "?d' \<noteq> ?d"
    by metis
  then show ?thesis
    using v by (simp add: steps_of_def)
qed

text \<open>
  Claim C3, amended: for every list of recipe steps and every volume \<open>v > 0\<close>, scaling
  from \<open>v\<close> to \<open>v\<close> returns the steps with each amount rounded to four decimals and
  everything else unchanged; the result equals the input exactly when every amount
  already has at most four decimals, that is, when the rounding leaves it as it is.
\<close>

theorem scale_recipe_identity_factor:
  "0 < v \<Longrightarrow> recipe_steps h steps \<Longrightarrow>
   scale_recipe_value h steps v v = Inr (map (scaled_step 1) (steps_of h steps)) \<and>
   (scale_recipe_value h steps v v = Inr (steps_of h steps) \<longleftrightarrow>
      list_all amount_is_rounded (steps_of h steps))"
proof -
  assume v: "0 < v" and rs: "recipe_steps h steps"
  have res: "scale_recipe_value h steps v v = Inr (map (scaled_step 1) (steps_of h steps))"
    using scale_recipe_value_closed [of v h steps v] v rs by (simp add: float_div_self)
  have "map (scaled_step 1) (steps_of h steps) = steps_of h steps \<longleftrightarrow>
      (\<forall>d \<in> set (steps_of h steps). scaled_step 1 d = d)"
    using map_eq_conv [of "scaled_step 1" "steps_of h steps" id] by simp
  also have "\<dots> \<longleftrightarrow> (\<forall>d \<in> set (steps_of h steps). amount_is_rounded d)"
    using recipe_steps_amounts [OF rs] scaled_step_fixed by blast
  finally show ?thesis
    using res by (simp add: list_all_iff)
qed

theorem scale_recipe_identity_factor_witness:
  "(0::real) < 100 \<and>
   recipe_steps [[''reagent'' \<mapsto> Str ''NaCl'', ''amount'' \<mapsto> Num 10]] [0] \<and>
   list_all amount_is_rounded (steps_of [[''reagent'' \<mapsto> Str ''NaCl'', ''amount'' \<mapsto> Num 10]] [0]) \<and>
   scale_recipe_value [[''reagent'' \<mapsto> Str ''NaCl'', ''amount'' \<mapsto> Num 10]] [0] 100 100 =
     Inr [[''reagent'' \<mapsto> Str ''NaCl'', ''amount'' \<mapsto> Num 10]]"
proof -
  let ?h = "[[''reagent'' \<mapsto> Str ''NaCl'', ''amount'' \<mapsto> Num 10]]"
  have a: "amount_of [''reagent'' \<mapsto> Str ''NaCl'', ''amount'' \<mapsto> Num 10] = Some 10"
    by (simp add: amount_of_def)
  have rs: "recipe_steps ?h [0]"
    using a by (simp add: recipe_steps_def)
  have "py_round 10 4 = 10"
    by (simp add: py_round_def round_half_even_def binary64_numeral)
  then have rounded: "list_all amount_is_rounded (steps_of ?h [0])"
    using a by (simp add: steps_of_def amount_is_rounded_def)
  have pos: "(0::real) < 100"
    by simp
  have "scale_recipe_value ?h [0] 100 100 = Inr (steps_of ?h [0])"
    using scale_recipe_identity_factor [OF pos rs] rounded by blast
  then show ?thesis
    using pos rs rounded by (simp add: steps_of_def)
qed

















subsection \<open>What a formatted string displays\<close>

lemma digit_value_digit_char: "digit_value (digit_char d) = Some (d mod 10)"
proof -
  have "d mod 10 < 10" by simp
  then consider "d mod 10 = 0" | "d mod 10 = 1" | "d mod 10 = 2" | "d mod 10 = 3"
    | "d mod 10 = 4" | "d mod 10 = 5" | "d mod 10 = 6" | "d mod 10 = 7" | "d mod 10 = 8"
    | "d mod 10 = 9"
    by atomize_elim presburger
  then show ?thesis
    by cases (simp_all add: digit_value_def digit_char_def)
qed

lemma digit_char_digit: "digit_value (digit_char d) \<noteq> None"
  by (simp add: digit_value_digit_char)

lemma not_digits:
  "digit_value CHR ''.'' = None" "digit_value CHR '' '' = None" "digit_value CHR ''-'' = None"
  by (simp_all add: digit_value_def)

lemma read_digits_append:
  "read_digits acc (s @ t) =
     (case read_digits acc s of None \<Rightarrow> None | Some m \<Rightarrow> read_digits m t)"
  by (induction s arbitrary: acc) (simp_all split: option.splits)

lemma str_nat_small: "n < 10 \<Longrightarrow> str_nat n = [digit_char n]"
  by (subst str_nat.simps) simp

lemma str_nat_large: "\<not> n < 10 \<Longrightarrow> str_nat n = str_nat (n div 10) @ [digit_char n]"
  by (subst str_nat.simps) simp

lemma str_nat_nonempty: "str_nat n \<noteq> []"
  by (cases "n < 10") (simp_all add: str_nat_small str_nat_large)

lemma read_digits_str_nat: "read_digits 0 (str_nat n) = Some n"
proof (induction n rule: str_nat.induct)
  case (1 n)
  show ?case
  proof (cases "n < 10")
    case True
    then show ?thesis
      by (simp add: str_nat_small digit_value_digit_char)
  next
    case False
    then have "read_digits 0 (str_nat (n div 10)) = Some (n div 10)"
      by (rule 1)
    then show ?thesis
      using False by (simp add: str_nat_large read_digits_append digit_value_digit_char)
  qed
qed

lemma str_nat_digits: "c \<in> set (str_nat n) \<Longrightarrow> digit_value c \<noteq> None"
proof (induction n rule: str_nat.induct)
  case (1 n)
  show ?case
  proof (cases "n < 10")
    case True
    then show ?thesis
      using 1(2) digit_char_digit [of n] by (simp add: str_nat_small)
  next
    case False
    show ?thesis
    proof (cases "c = digit_char n")
      case True
      then show ?thesis using digit_char_digit [of n] by simp
    next
      case c: False
      then have "c \<in> set (str_nat (n div 10))"
        using 1(2) False by (simp add: str_nat_large)
      with False show ?thesis by (rule 1(1))
    qed
  qed
qed

lemma str_nat_hd: "0 < n \<Longrightarrow> hd (str_nat n) \<noteq> CHR ''0''"
proof (induction n rule: str_nat.induct)
  case (1 n)
  show ?case
  proof (cases "n < 10")
    case True
    have "digit_value (digit_char n) = Some n"
      using True by (simp add: digit_value_digit_char)
    moreover have "digit_value CHR ''0'' = Some 0"
      by (simp add: digit_value_def)
    ultimately have "digit_char n \<noteq> CHR ''0''"
      using 1(2) by auto
    then show ?thesis
      using True by (simp add: str_nat_small)
  next
    case False
    then have "0 < n div 10" by simp
    with False have "hd (str_nat (n div 10)) \<noteq> CHR ''0''"
      by (rule 1(1))
    then show ?thesis
      using False by (simp add: str_nat_large str_nat_nonempty)
  qed
qed

lemma str_nat_length: "1 < length (str_nat n) \<Longrightarrow> 0 < n"
  by (cases "n = 0") (simp_all add: str_nat_small)

lemma read_nat_str_nat: "read_nat (str_nat n) = Some n"
  using str_nat_hd [of n] str_nat_length [of n]
  by (auto simp: read_nat_def str_nat_nonempty read_digits_str_nat)

lemma read_decimal_digits:
  "read_digits 0 [digit_char (n div 100), digit_char (n div 10), digit_char n] =
     Some (n mod 1000)"
proof -
  have a: "n mod (10 * 100) = 10 * (n div 10 mod 100) + n mod 10"
    by (rule mod_mult2_eq)
  have b: "(n div 10) mod (10 * 10) = 10 * (n div 10 div 10 mod 10) + n div 10 mod 10"
    by (rule mod_mult2_eq)
  have c: "n div 10 div 10 = n div (10 * 10)"
    by (simp only: div_mult2_eq)
  from a b c have "10 * (10 * (n div 100 mod 10) + n div 10 mod 10) + n mod 10 = n mod 1000"
    by simp
  then show ?thesis
    by (simp add: digit_value_digit_char)
qed

lemma takeWhile_stop:
  "\<not> P x \<Longrightarrow> (\<And>y. y \<in> set xs \<Longrightarrow> P y) \<Longrightarrow> takeWhile P (xs @ x # l) = xs"
  by (simp add: takeWhile_tail)

lemma whole_part:
  "takeWhile (\<lambda>c. c \<noteq> CHR ''.'') (str_nat a @ CHR ''.'' # rest) = str_nat a"
proof (rule takeWhile_stop)
  show "\<not> CHR ''.'' \<noteq> CHR ''.''" by simp
next
  fix c
  assume "c \<in> set (str_nat a)"
  then have "digit_value c \<noteq> None" by (rule str_nat_digits)
  then show "c \<noteq> CHR ''.''" using not_digits by auto
qed

lemma format_thousandths_split:
  "format_thousandths n =
     str_nat (n div 1000) @ CHR ''.'' #
       [digit_char (n div 100), digit_char (n div 10), digit_char n]"
  by (simp add: format_thousandths_def)

lemma str_nat_hd_digit: "digit_value (hd (str_nat n)) \<noteq> None"
proof -
  have "hd (str_nat n) \<in> set (str_nat n)"
    by (simp add: str_nat_nonempty)
  then show ?thesis by (rule str_nat_digits)
qed

lemma read_body:
  "read_nat (takeWhile (\<lambda>c. c \<noteq> CHR ''.'') (format_thousandths n)) = Some (n div 1000) \<and>
   read_digits 0
     (drop (Suc (length (takeWhile (\<lambda>c. c \<noteq> CHR ''.'') (format_thousandths n))))
        (format_thousandths n)) = Some (n mod 1000) \<and>
   length (format_thousandths n) =
     length (takeWhile (\<lambda>c. c \<noteq> CHR ''.'') (format_thousandths n)) + 4"
proof -
  let ?w = "str_nat (n div 1000)"
  let ?d = "[digit_char (n div 100), digit_char (n div 10), digit_char n]"
  have w: "takeWhile (\<lambda>c. c \<noteq> CHR ''.'') (?w @ CHR ''.'' # ?d) = ?w"
    by (rule whole_part)
  have d: "drop (Suc (length ?w)) (?w @ CHR ''.'' # ?d) = ?d"
    by simp
  have l: "length (?w @ CHR ''.'' # ?d) = length ?w + 4"
    by simp
  show ?thesis
    unfolding format_thousandths_split w d
    using l by (simp only: read_nat_str_nat read_decimal_digits simp_thms)
qed

lemma format_thousandths_hd:
  "format_thousandths n \<noteq> [] \<and> hd (format_thousandths n) \<noteq> CHR ''-''"
proof -
  have "hd (str_nat (n div 1000)) \<noteq> CHR ''-''"
    using str_nat_hd_digit [of "n div 1000"] not_digits by auto
  then show ?thesis
    by (simp add: format_thousandths_split str_nat_nonempty)
qed

lemma read_thousandths: "read_3_decimals (format_thousandths n) = Some (False, n)"
proof -
  define body where "body = format_thousandths n"
  have b: "read_nat (takeWhile (\<lambda>c. c \<noteq> CHR ''.'') body) = Some (n div 1000)"
      "read_digits 0 (drop (Suc (length (takeWhile (\<lambda>c. c \<noteq> CHR ''.'') body))) body) =
         Some (n mod 1000)"
      "length body = length (takeWhile (\<lambda>c. c \<noteq> CHR ''.'') body) + 4"
    unfolding body_def using read_body [of n] by simp_all
  have h: "body \<noteq> []" "hd body \<noteq> CHR ''-''"
    unfolding body_def using format_thousandths_hd [of n] by simp_all
  have "read_3_decimals body = Some (False, n)"
    using b(3) h by (simp add: read_3_decimals_def Let_def b(1) b(2))
  then show ?thesis by (simp only: body_def)
qed

lemma read_negative_thousandths:
  "read_3_decimals (CHR ''-'' # format_thousandths n) = Some (True, n)"
proof -
  define body where "body = format_thousandths n"
  have b: "read_nat (takeWhile (\<lambda>c. c \<noteq> CHR ''.'') body) = Some (n div 1000)"
      "read_digits 0 (drop (Suc (length (takeWhile (\<lambda>c. c \<noteq> CHR ''.'') body))) body) =
         Some (n mod 1000)"
      "length body = length (takeWhile (\<lambda>c. c \<noteq> CHR ''.'') body) + 4"
    unfolding body_def using read_body [of n] by simp_all
  have "read_3_decimals (CHR ''-'' # body) = Some (True, n)"
    using b(3) by (simp add: read_3_decimals_def Let_def b(1) b(2))
  then show ?thesis by (simp only: body_def)
qed

lemma read_3f:
  "read_3_decimals (format_3f v) = Some (v < 0, nat (round_half_even (\<bar>v\<bar> * 1000)))"
proof (cases "v < 0")
  case True
  then have "format_3f v = CHR ''-'' # format_thousandths (nat (round_half_even (\<bar>v\<bar> * 1000)))"
    by (simp add: format_3f_def)
  then show ?thesis
    using True by (simp only: read_negative_thousandths)
next
  case False
  then have "format_3f v = format_thousandths (nat (round_half_even (\<bar>v\<bar> * 1000)))"
    by (simp add: format_3f_def)
  then show ?thesis
    using False by (simp only: read_thousandths)
qed

lemma format_thousandths_chars: "c \<in> set (format_thousandths n) \<Longrightarrow> c \<noteq> CHR '' ''"
proof -
  assume "c \<in> set (format_thousandths n)"
  then consider "c \<in> set (str_nat (n div 1000))" | "c = CHR ''.''" | "c = digit_char (n div 100)"
    | "c = digit_char (n div 10)" | "c = digit_char n"
    unfolding format_thousandths_split by auto
  then show ?thesis
  proof cases
    case 1
    then have "digit_value c \<noteq> None" by (rule str_nat_digits)
    then show ?thesis using not_digits by auto
  next
    case 2
    then show ?thesis by simp
  next
    case 3
    then show ?thesis using digit_char_digit [of "n div 100"] not_digits by auto
  next
    case 4
    then show ?thesis using digit_char_digit [of "n div 10"] not_digits by auto
  next
    case 5
    then show ?thesis using digit_char_digit [of n] not_digits by auto
  qed
qed

lemma format_3f_chars: "c \<in> set (format_3f v) \<Longrightarrow> c \<noteq> CHR '' ''"
proof -
  assume c: "c \<in> set (format_3f v)"
  let ?n = "nat (round_half_even (\<bar>v\<bar> * 1000))"
  from c have "c = CHR ''-'' \<or> c \<in> set (format_thousandths ?n)"
    by (auto simp: format_3f_def split: if_splits)
  then show ?thesis
    using format_thousandths_chars [of c ?n] by auto
qed

lemma read_display_format_3f:
  "read_display (format_3f v @ CHR '' '' # symbol) =
     Some ((v < 0, nat (round_half_even (\<bar>v\<bar> * 1000))), symbol)"
proof -
  have t: "takeWhile (\<lambda>c. c \<noteq> CHR '' '') (format_3f v @ CHR '' '' # symbol) = format_3f v"
  proof (rule takeWhile_stop)
    show "\<not> CHR '' '' \<noteq> CHR '' ''" by simp
  next
    fix c
    assume "c \<in> set (format_3f v)"
    then show "c \<noteq> CHR '' ''" by (rule format_3f_chars)
  qed
  have l: "length (format_3f v) < length (format_3f v @ CHR '' '' # symbol)"
    by simp
  have d: "drop (Suc (length (format_3f v))) (format_3f v @ CHR '' '' # symbol) = symbol"
    by simp
  show ?thesis
    unfolding read_display_def Let_def
    by (simp only: t l d if_True read_3f option.case)
qed



subsection \<open>The display ladder\<close>






lemma micro_at: "binary64 (4722366482869645 / 2 ^ 72 * 1000000) = 1"
  by (rule binary64_value [where e = "- 1"]) (simp_all add: value_eval)


lemma thresholds_pos: "0 < py_float 0.001" "0 < py_float 0.000001"
  by (simp_all add: thresholds)

lemma thresholds_order: "py_float 0.000001 < py_float 0.001" "py_float 0.001 < 1"
  by (simp_all add: thresholds)














lemma read_example: "read_display ''312.500 mg'' = Some ((False, 312500), ''mg'')"
  by (simp add: read_display_def read_3_decimals_def read_nat_def digit_value_def Let_def)

lemma displayed_from_format:
  "0 \<le> v \<Longrightarrow> real lo \<le> v * 1000 \<Longrightarrow> displayed_from (format_3f v @ CHR '' '' # symbol) symbol lo"
proof -
  assume v: "0 \<le> v" and lo: "real lo \<le> v * 1000"
  have "of_int (int lo) \<le> \<bar>v\<bar> * 1000" using v lo by simp
  then have "int lo \<le> round_half_even (\<bar>v\<bar> * 1000)" by (rule rhe_ge_int)
  then have "lo \<le> nat (round_half_even (\<bar>v\<bar> * 1000))" by simp
  then show ?thesis
    using v by (simp add: displayed_from_def read_display_format_3f del: append.simps)
qed

lemma displayed_between_format:
  "0 \<le> v \<Longrightarrow> real lo \<le> v * 1000 \<Longrightarrow> v * 1000 \<le> real hi \<Longrightarrow>
   displayed_between (format_3f v @ CHR '' '' # symbol) symbol lo hi"
proof -
  assume v: "0 \<le> v" and lo: "real lo \<le> v * 1000" and hi: "v * 1000 \<le> real hi"
  have "of_int (int lo) \<le> \<bar>v\<bar> * 1000" using v lo by simp
  then have "int lo \<le> round_half_even (\<bar>v\<bar> * 1000)" by (rule rhe_ge_int)
  then have l: "lo \<le> nat (round_half_even (\<bar>v\<bar> * 1000))" by simp
  have "\<bar>v\<bar> * 1000 \<le> of_int (int hi)" using v hi by simp
  then have "round_half_even (\<bar>v\<bar> * 1000) \<le> int hi" by (rule rhe_le_int)
  then have h: "nat (round_half_even (\<bar>v\<bar> * 1000)) \<le> hi" by simp
  show ?thesis
    using v l h by (simp add: displayed_between_def read_display_format_3f del: append.simps)
qed

lemma is_binary64_thousand: "is_binary64 1000"
  by (simp add: is_binary64_def binary64_numeral)

lemma is_binary64_unit: "is_binary64 1"
  by (simp add: is_binary64_def)

lemma kilo_range: "1000 \<le> x \<Longrightarrow> 1 \<le> float_div x 1000"
  unfolding float_div_def using is_binary64_unit by (rule binary64_ge) simp_all

lemma milli_at: "1 \<le> py_float 0.001 * 1000"
  by (simp add: thresholds)

lemma milli_range:
  assumes lo: "py_float 0.001 \<le> x" and hi: "x < 1"
  shows "1 \<le> float_mul x 1000 \<and> float_mul x 1000 \<le> 1000"
proof -
  have "1 \<le> x * 1000" using lo milli_at by linarith
  then have l: "1 \<le> binary64 (x * 1000)"
    using is_binary64_unit by (intro binary64_ge) simp_all
  have "0 \<le> x * 1000" using lo thresholds_pos by simp
  moreover have "x * 1000 \<le> 1000" using hi by simp
  ultimately have h: "binary64 (x * 1000) \<le> 1000"
    using is_binary64_thousand by (intro binary64_le)
  from l h show ?thesis by (simp add: float_mul_def)
qed

lemma milli_in_micro: "binary64 (1152921504606847 / 2 ^ 60 * 1000000) = 1000"
  by (rule binary64_value [where e = 9]) (simp_all add: value_eval)

lemma micro_in_nano: "binary64 (4722366482869645 / 2 ^ 72 * 1000000000) = 1000"
  by (rule binary64_value [where e = 9]) (simp_all add: value_eval)

lemma micro_upper:
  assumes lo: "0 \<le> x" and hi: "x < py_float 0.001"
  shows "0 \<le> float_mul x 1000000 \<and> float_mul x 1000000 \<le> 1000"
proof -
  have p: "0 \<le> x * 1000000" using lo by simp
  have "x * 1000000 \<le> 1152921504606847 / 2 ^ 60 * 1000000"
    using hi unfolding py_float_milli_literal by simp
  with p have "binary64 (x * 1000000) \<le> binary64 (1152921504606847 / 2 ^ 60 * 1000000)"
    by (rule binary64_mono_nonneg)
  then have "binary64 (x * 1000000) \<le> 1000"
    by (simp only: milli_in_micro)
  moreover have "0 \<le> binary64 (x * 1000000)"
    using p by (rule binary64_nonneg)
  ultimately show ?thesis by (simp add: float_mul_def)
qed

lemma micro_lower:
  assumes lo: "py_float 0.000001 \<le> x"
  shows "1 \<le> float_mul x 1000000"
proof -
  have "(0::real) \<le> 4722366482869645 / 2 ^ 72 * 1000000" by simp
  moreover have "4722366482869645 / 2 ^ 72 * 1000000 \<le> x * 1000000"
    using lo unfolding py_float_micro_literal by simp
  ultimately have "binary64 (4722366482869645 / 2 ^ 72 * 1000000) \<le> binary64 (x * 1000000)"
    by (rule binary64_mono_nonneg)
  then show ?thesis by (simp only: micro_at float_mul_def)
qed

lemma nano_upper:
  assumes lo: "0 \<le> x" and hi: "x < py_float 0.000001"
  shows "0 \<le> float_mul x 1000000000 \<and> float_mul x 1000000000 \<le> 1000"
proof -
  have p: "0 \<le> x * 1000000000" using lo by simp
  have "x * 1000000000 \<le> 4722366482869645 / 2 ^ 72 * 1000000000"
    using hi unfolding py_float_micro_literal by simp
  with p have "binary64 (x * 1000000000) \<le> binary64 (4722366482869645 / 2 ^ 72 * 1000000000)"
    by (rule binary64_mono_nonneg)
  then have "binary64 (x * 1000000000) \<le> 1000"
    by (simp only: micro_in_nano)
  moreover have "0 \<le> binary64 (x * 1000000000)"
    using p by (rule binary64_nonneg)
  ultimately show ?thesis by (simp add: float_mul_def)
qed

lemma format_mass_range:
  assumes x: "0 < x"
  shows "displayed_from (format_mass x) ''kg'' 1000 \<or>
     displayed_between (format_mass x) ''g'' 1000 1000000 \<or>
     displayed_between (format_mass x) ''mg'' 1000 1000000 \<or>
     displayed_between (format_mass x) (micro_sign # ''g'') 0 1000000"
proof -
  consider "1000 \<le> x" | "1 \<le> x" "x < 1000" | "py_float 0.001 \<le> x" "x < 1"
    | "x < py_float 0.001" "x < 1"
    using thresholds_order by linarith
  then show ?thesis
  proof cases
    case 1
    then have f: "format_mass x = format_3f (float_div x 1000) @ CHR '' '' # ''kg''"
      by (simp add: format_mass_def)
    have "1 \<le> float_div x 1000" using 1 by (rule kilo_range)
    then have "displayed_from (format_mass x) ''kg'' 1000"
      unfolding f by (intro displayed_from_format) simp_all
    then show ?thesis by simp
  next
    case 2
    then have f: "format_mass x = format_3f x @ CHR '' '' # ''g''"
      by (simp add: format_mass_def)
    have "displayed_between (format_mass x) ''g'' 1000 1000000"
      unfolding f using 2 by (intro displayed_between_format) simp_all
    then show ?thesis by simp
  next
    case 3
    then have f: "format_mass x = format_3f (float_mul x 1000) @ CHR '' '' # ''mg''"
      by (simp add: format_mass_def)
    have "displayed_between (format_mass x) ''mg'' 1000 1000000"
      unfolding f using milli_range [OF 3] by (intro displayed_between_format) simp_all
    then show ?thesis by simp
  next
    case 4
    then have f: "format_mass x = format_3f (float_mul x 1000000) @ CHR '' '' # micro_sign # ''g''"
      by (simp add: format_mass_def)
    have "0 \<le> x" using x by simp
    then have "displayed_between (format_mass x) (micro_sign # ''g'') 0 1000000"
      unfolding f using micro_upper [OF _ 4(1)] by (intro displayed_between_format) simp_all
    then show ?thesis by simp
  qed
qed

lemma format_volume_range:
  assumes x: "0 < x"
  shows "displayed_from (format_volume x) ''L'' 1000 \<or>
     displayed_between (format_volume x) ''mL'' 1000 1000000 \<or>
     displayed_between (format_volume x) (micro_sign # ''L'') 0 1000000"
proof -
  consider "1 \<le> x" | "py_float 0.001 \<le> x" "x < 1" | "x < py_float 0.001" "x < 1"
    using thresholds_order by linarith
  then show ?thesis
  proof cases
    case 1
    then have f: "format_volume x = format_3f x @ CHR '' '' # ''L''"
      by (simp add: format_volume_def)
    have "displayed_from (format_volume x) ''L'' 1000"
      unfolding f using 1 by (intro displayed_from_format) simp_all
    then show ?thesis by simp
  next
    case 2
    then have f: "format_volume x = format_3f (float_mul x 1000) @ CHR '' '' # ''mL''"
      by (simp add: format_volume_def)
    have "displayed_between (format_volume x) ''mL'' 1000 1000000"
      unfolding f using milli_range [OF 2] by (intro displayed_between_format) simp_all
    then show ?thesis by simp
  next
    case 3
    then have f: "format_volume x = format_3f (float_mul x 1000000) @ CHR '' '' # micro_sign # ''L''"
      by (simp add: format_volume_def)
    have "0 \<le> x" using x by simp
    then have "displayed_between (format_volume x) (micro_sign # ''L'') 0 1000000"
      unfolding f using micro_upper [OF _ 3(1)] by (intro displayed_between_format) simp_all
    then show ?thesis by simp
  qed
qed

lemma format_concentration_range:
  assumes x: "0 < x"
  shows "displayed_from (format_concentration x) ''M'' 1000 \<or>
     displayed_between (format_concentration x) ''mM'' 1000 1000000 \<or>
     displayed_between (format_concentration x) (micro_sign # ''M'') 1000 1000000 \<or>
     displayed_between (format_concentration x) ''nM'' 0 1000000"
proof -
  consider "1 \<le> x" | "py_float 0.001 \<le> x" "x < 1"
    | "py_float 0.000001 \<le> x" "x < py_float 0.001" "x < 1"
    | "x < py_float 0.000001" "x < py_float 0.001" "x < 1"
    using thresholds_order by linarith
  then show ?thesis
  proof cases
    case 1
    then have f: "format_concentration x = format_3f x @ CHR '' '' # ''M''"
      by (simp add: format_concentration_def)
    have "displayed_from (format_concentration x) ''M'' 1000"
      unfolding f using 1 by (intro displayed_from_format) simp_all
    then show ?thesis by simp
  next
    case 2
    then have f: "format_concentration x = format_3f (float_mul x 1000) @ CHR '' '' # ''mM''"
      by (simp add: format_concentration_def)
    have "displayed_between (format_concentration x) ''mM'' 1000 1000000"
      unfolding f using milli_range [OF 2] by (intro displayed_between_format) simp_all
    then show ?thesis by simp
  next
    case 3
    then have f: "format_concentration x =
        format_3f (float_mul x 1000000) @ CHR '' '' # micro_sign # ''M''"
      by (simp add: format_concentration_def)
    have "0 \<le> x" using x by simp
    then have "displayed_between (format_concentration x) (micro_sign # ''M'') 1000 1000000"
      unfolding f using micro_upper [OF _ 3(2)] micro_lower [OF 3(1)]
      by (intro displayed_between_format) simp_all
    then show ?thesis by simp
  next
    case 4
    then have f: "format_concentration x = format_3f (float_mul x 1000000000) @ CHR '' '' # ''nM''"
      by (simp add: format_concentration_def)
    have "0 \<le> x" using x by simp
    then have "displayed_between (format_concentration x) ''nM'' 0 1000000"
      unfolding f using nano_upper [OF _ 4(1)] by (intro displayed_between_format) simp_all
    then show ?thesis by simp
  qed
qed

text \<open>
  Claim C5, as the specification states it: for every base value above 0 the displayed
  number is in the interval from 1 (included) to 1000 (excluded), except in the
  smallest-unit branch. The largest unit of a ladder has no unit above it, so its branch
  has no upper bound: a million grams are displayed as 1000.000 kg. And a branch in the
  middle of the ladder displays 1000.000 when the value rounds up to it: 999.999755859375
  grams are displayed as 1000.000 g.
\<close>

theorem format_displays_thousand:
  "format_mass 1000000 = ''1000.000 kg'' \<and> format_mass 999.999755859375 = ''1000.000 g''"
proof -
  have d: "float_div 1000000 1000 = 1000"
    by (simp add: float_div_def binary64_numeral)
  have f: "format_3f 1000 = ''1000.000''"
    by (simp add: format_3f_def format_thousandths_def round_half_even_def str_nat.simps
        digit_char_def)
  have k: "format_mass 1000000 = ''1000.000 kg''"
    unfolding format_mass_def d f by simp
  have r: "format_3f 999.999755859375 = ''1000.000''"
    by (simp add: format_3f_def format_thousandths_def round_half_even_def str_nat.simps
        digit_char_def)
  have g: "format_mass 999.999755859375 = ''1000.000 g''"
    unfolding format_mass_def r by simp
  from k g show ?thesis by (rule conjI)
qed

text \<open>
  Claim C5, amended: for every base value above 0, the number that is displayed (read off
  the returned string, in thousandths) is at least 1.000 and at most 1000.000 under a
  unit that is neither the largest nor the smallest of its ladder (g and mg; mL; mM and
  the micromolar unit); it is at least 1.000, with no upper bound, under the largest unit
  (kg, L, M); and it is at most 1000.000 under the smallest unit.
\<close>

theorem format_ladder_ranges:
  "0 < x \<Longrightarrow>
   (displayed_from (format_mass x) ''kg'' 1000 \<or>
    displayed_between (format_mass x) ''g'' 1000 1000000 \<or>
    displayed_between (format_mass x) ''mg'' 1000 1000000 \<or>
    displayed_between (format_mass x) (micro_sign # ''g'') 0 1000000) \<and>
   (displayed_from (format_volume x) ''L'' 1000 \<or>
    displayed_between (format_volume x) ''mL'' 1000 1000000 \<or>
    displayed_between (format_volume x) (micro_sign # ''L'') 0 1000000) \<and>
   (displayed_from (format_concentration x) ''M'' 1000 \<or>
    displayed_between (format_concentration x) ''mM'' 1000 1000000 \<or>
    displayed_between (format_concentration x) (micro_sign # ''M'') 1000 1000000 \<or>
    displayed_between (format_concentration x) ''nM'' 0 1000000)"
  using format_mass_range [of x] format_volume_range [of x] format_concentration_range [of x]
  by (simp only: simp_thms)

lemma example_in_milli: "float_mul 0.3125 1000 = 312.5"
proof -
  have "is_binary64 (of_int 625 * pow2 (- 1))"
    by (rule is_binary64_dyadic) simp_all
  then show ?thesis
    by (simp add: float_mul_def is_binary64_def pow2_def)
qed

lemma format_3f_in_milli: "format_3f 312.5 = ''312.500''"
  by (simp add: format_3f_def format_thousandths_def round_half_even_def str_nat.simps
      digit_char_def)

theorem format_ladder_ranges_witness:
  "(0::real) < 0.3125 \<and>
   format_mass 0.3125 = ''312.500 mg'' \<and> displayed_between ''312.500 mg'' ''mg'' 1000 1000000 \<and>
   format_volume 0.3125 = ''312.500 mL'' \<and> displayed_between ''312.500 mL'' ''mL'' 1000 1000000 \<and>
   format_concentration 0.3125 = ''312.500 mM'' \<and>
   displayed_between ''312.500 mM'' ''mM'' 1000 1000000"
proof -
  have c: "\<not> (1000::real) \<le> 0.3125" "\<not> (1::real) \<le> 0.3125" "py_float 0.001 \<le> 0.3125"
    by (simp_all add: thresholds)
  have m: "format_mass 0.3125 = ''312.500 mg''"
    unfolding format_mass_def example_in_milli format_3f_in_milli using c by simp
  have v: "format_volume 0.3125 = ''312.500 mL''"
    unfolding format_volume_def example_in_milli format_3f_in_milli using c by simp
  have n: "format_concentration 0.3125 = ''312.500 mM''"
    unfolding format_concentration_def example_in_milli format_3f_in_milli using c by simp
  have r: "read_display ''312.500 mg'' = Some ((False, 312500), ''mg'')"
      "read_display ''312.500 mL'' = Some ((False, 312500), ''mL'')"
      "read_display ''312.500 mM'' = Some ((False, 312500), ''mM'')"
    by (simp_all add: read_display_def read_3_decimals_def read_nat_def digit_value_def Let_def)
  have p: "(0::real) < 0.3125" by simp
  have "displayed_between ''312.500 mg'' ''mg'' 1000 1000000 \<and>
      displayed_between ''312.500 mL'' ''mL'' 1000 1000000 \<and>
      displayed_between ''312.500 mM'' ''mM'' 1000 1000000"
    using format_ladder_ranges [OF p] unfolding m v n
    by (simp add: displayed_between_def displayed_from_def r)
  with p m v n show ?thesis by simp
qed

subsection \<open>Negative values\<close>



















end
